theory Spec2Isabelle
  imports Main "HOL-Library.Sublist"
begin

section \<open>Python strings\<close>

text \<open>
  The source is Python 2: a docstring is a byte string, modelled as a \<open>string\<close>
  (a list of 8-bit characters). The functions of this section are the \<open>str\<close> methods
  the source calls. The substring test \<open>sub in s\<close> is \<^const>\<open>sublist\<close>.
\<close>

abbreviation NL :: char where
  "NL \<equiv> CHR 0x0A"

text \<open>The characters \<open>str.strip()\<close> removes: space, tab, newline, return, VT, FF.\<close>

definition is_space :: "char \<Rightarrow> bool" where
  "is_space c = (c = CHR '' '' \<or> c = CHR 0x09 \<or> c = CHR 0x0A \<or> c = CHR 0x0D
                 \<or> c = CHR 0x0B \<or> c = CHR 0x0C)"

definition str_lstrip :: "string \<Rightarrow> string" where
  "str_lstrip s = dropWhile is_space s"

definition str_rstrip :: "string \<Rightarrow> string" where
  "str_rstrip s = rev (dropWhile is_space (rev s))"

definition str_strip :: "string \<Rightarrow> string" where
  "str_strip s = str_rstrip (str_lstrip s)"

text \<open>
  \<open>s.split(sep)\<close>: the scan goes left to right, cuts at each occurrence of \<open>sep\<close> and
  resumes after it, so occurrences do not overlap; the pieces are returned in order and
  a string without an occurrence is returned whole. \<open>acc\<close> holds the current piece,
  reversed. Python raises ValueError for an empty separator; the source only passes the
  literals \<open>'\n'\<close> and \<open>' -- '\<close>.
\<close>

fun split_acc :: "string \<Rightarrow> string \<Rightarrow> string \<Rightarrow> string list" where
  "split_acc sep acc [] = [rev acc]"
| "split_acc sep acc (c # cs) =
     (if prefix sep (c # cs) then rev acc # split_acc sep [] (drop (length sep - 1) cs)
      else split_acc sep (c # acc) cs)"

definition str_split :: "string \<Rightarrow> string \<Rightarrow> string list" where
  "str_split sep s = split_acc sep [] s"

text \<open>
  \<open>s.replace(old, '')\<close>: every occurrence of \<open>old\<close>, found left to right without
  overlap, is deleted. The source only deletes non-empty texts.
\<close>

fun str_remove :: "string \<Rightarrow> string \<Rightarrow> string" where
  "str_remove old [] = []"
| "str_remove old (c # cs) =
     (if prefix old (c # cs) then str_remove old (drop (length old - 1) cs)
      else c # str_remove old cs)"

text \<open>\<open>sep.join(xs)\<close>.\<close>

fun str_join :: "string \<Rightarrow> string list \<Rightarrow> string" where
  "str_join sep [] = []"
| "str_join sep [x] = x"
| "str_join sep (x # y # ys) = x @ sep @ str_join sep (y # ys)"

section \<open>Parameter dictionaries\<close>

text \<open>
  The values the parameter dictionaries hold. \<open>PRange mx mn\<close> is the dictionary
  \<open>{'max': mx, 'min': mn, 'valueType': 'RANGE'}\<close> of \<open>build_form_parameters\<close>.
\<close>

datatype pyval = PNone | PBool bool | PStr string | PInt int | PRange pyval pyval

text \<open>
  A parameter is a Python dict whose keys are taken from seven literals of
  \<open>introspectors.py\<close>. Every dict the source builds has the key \<open>'name'\<close>; each
  other key is present (\<open>Some\<close>) or absent (\<open>None\<close>).
\<close>

record param =
  name :: string
  dataType :: "pyval option"
  paramType :: "pyval option"
  required :: "pyval option"
  description :: "pyval option"
  allowableValues :: "pyval option"
  defaultValue :: "pyval option"

definition new_param :: "string \<Rightarrow> param" where
  "new_param n = \<lparr>name = n, dataType = None, paramType = None, required = None,
                  description = None, allowableValues = None, defaultValue = None\<rparr>"

section \<open>Inline parameters of a docstring\<close>

text \<open>
  \<open>data_type_pattern = re.compile('.*(\[dataType=(.+)\]).*')\<close> and
  \<open>data_type_pattern.match(description)\<close>. The dot does not match a newline, so the
  match lies in the text before the first newline. The first \<open>.*\<close> is greedy: the
  opening \<open>[dataType=\<close> is the rightmost one that can be completed. \<open>(.+)\<close> is greedy
  too: it runs to the last \<open>]\<close> and is not empty. The result is
  \<open>(group(1), group(2))\<close>.
\<close>

definition before_last :: "char \<Rightarrow> string \<Rightarrow> string" where
  "before_last c s = rev (tl (dropWhile (\<lambda>x. x \<noteq> c) (rev s)))"

definition data_type_here :: "string \<Rightarrow> (string \<times> string) option" where
  "data_type_here s =
     (if prefix ''[dataType='' s then
        (let rest = drop 10 s; g2 = before_last (CHR '']'') rest in
         if CHR '']'' \<in> set rest \<and> g2 \<noteq> [] then Some (''[dataType='' @ g2 @ '']'', g2)
         else None)
      else None)"

fun data_type_scan :: "string \<Rightarrow> (string \<times> string) option" where
  "data_type_scan [] = None"
| "data_type_scan (c # cs) =
     (case data_type_scan cs of Some r \<Rightarrow> Some r | None \<Rightarrow> data_type_here (c # cs))"

definition data_type_match :: "string \<Rightarrow> (string \<times> string) option" where
  "data_type_match s = data_type_scan (takeWhile (\<lambda>c. c \<noteq> NL) s)"

text \<open>
  The three tag steps of the loop body of \<open>build_query_params_from_docstring\<close>.
  Each takes the dictionary and the description so far and returns both, updated.
\<close>

definition param_type_tag :: "param \<Rightarrow> string \<Rightarrow> param \<times> string" where
  "param_type_tag d descr =
     (if sublist ''[paramType=form]'' descr
      then (d\<lparr>paramType := Some (PStr ''form'')\<rparr>, str_remove ''[paramType=form]'' descr)
      else if sublist ''[paramType=body]'' descr
      then (d\<lparr>paramType := Some (PStr ''body'')\<rparr>, str_remove ''[paramType=body]'' descr)
      else (d, descr))"

definition required_tag :: "param \<Rightarrow> string \<Rightarrow> param \<times> string" where
  "required_tag d descr =
     (if sublist ''[required]'' descr
      then (d\<lparr>required := Some (PBool True)\<rparr>, str_remove ''[required]'' descr)
      else (d, descr))"

definition data_type_tag :: "param \<Rightarrow> string \<Rightarrow> param \<times> string" where
  "data_type_tag d descr =
     (case data_type_match descr of
        Some (g1, g2) \<Rightarrow> (d\<lparr>dataType := Some (PStr g2)\<rparr>, str_remove g1 descr)
      | None \<Rightarrow> (d, descr))"

text \<open>
  The body of the loop for one line: \<open>None\<close> when \<open>len(param) == 2\<close> fails, the
  dictionary appended otherwise.
\<close>

definition param_from_line :: "string \<Rightarrow> param option" where
  "param_from_line line =
     (case str_split '' -- '' line of
        [nm, descr] \<Rightarrow>
          (let (d1, descr1) = param_type_tag (new_param (str_strip nm)) descr;
               (d2, descr2) = required_tag d1 descr1;
               (d3, descr3) = data_type_tag d2 descr2
           in Some (d3\<lparr>description := Some (PStr (str_strip descr3))\<rparr>))
      | _ \<Rightarrow> None)"

section \<open>Views, serializers and method introspectors\<close>

text \<open>
  A serializer field, as \<open>build_form_parameters\<close> reads it. An attribute read with
  \<open>getattr(field, a, default)\<close> is \<open>None\<close> when the field has no such attribute;
  \<open>type_label\<close> is read without a default. \<open>default\<close> is a plain value or a
  callable, given by the value its call returns (\<open>get_resolved_value\<close>).
\<close>

datatype attr_value = Plain pyval | Callable pyval

record field_spec =
  read_only :: "bool option"
  type_label :: pyval
  max_length :: "pyval option"
  min_length :: "pyval option"
  help_text :: "pyval option"
  default :: "attr_value option"
  field_required :: "pyval option"

text \<open>
  A serializer class: its \<open>__name__\<close> and the items of \<open>serializer().get_fields()\<close>
  in iteration order.
\<close>

record serializer_class =
  serializer_name :: string
  get_fields :: "(string \<times> field_spec) list"

text \<open>
  What the introspectors read of the view class (\<open>self.callback\<close>):
  \<open>view_description\<close> is the result of rest_framework's
  \<open>get_view_description(callback)\<close>; \<open>method_docs m\<close> is \<open>None\<close> when
  \<open>hasattr(callback, m)\<close> fails and the \<open>__doc__\<close> of that attribute otherwise (itself
  \<open>None\<close> for a method without a docstring); \<open>get_serializer_class\<close> is \<open>None\<close>
  when the class has no such method or the method returns \<open>None\<close>;
  \<open>is_APIView\<close> and \<open>is_APIDocView\<close> are \<open>issubclass(cls, APIView)\<close> and
  \<open>issubclass(cls, APIDocView)\<close>; \<open>module\<close> is \<open>__module__\<close>;
  \<open>get_model_class\<close> is \<open>None\<close> when the class has no such method and the model
  class it returns otherwise (a model class is identified by a number).
\<close>

record view_class =
  view_description :: string
  method_docs :: "string \<rightharpoonup> string option"
  get_serializer_class :: "serializer_class option"
  is_APIView :: bool
  is_APIDocView :: bool
  module :: string
  get_model_class :: "nat option"

text \<open>
  A method introspector. \<open>method_name\<close> is the attribute \<open>self.method\<close>;
  \<open>http_method\<close> is the attribute of
  \<open>ViewSetMethodIntrospector\<close>, \<open>None\<close> for an \<open>APIViewMethodIntrospector\<close>.
\<close>

record method_introspector =
  method_name :: string
  http_method :: "string option"
  path :: string
  callback :: view_class

definition char_lower :: "char \<Rightarrow> char" where
  "char_lower c = (let n = (of_char c :: nat) in if 65 \<le> n \<and> n \<le> 90 then char_of (n + 32) else c)"

definition char_upper :: "char \<Rightarrow> char" where
  "char_upper c = (let n = (of_char c :: nat) in if 97 \<le> n \<and> n \<le> 122 then char_of (n - 32) else c)"

definition str_lower :: "string \<Rightarrow> string" where
  "str_lower s = map char_lower s"

definition str_upper :: "string \<Rightarrow> string" where
  "str_upper s = map char_upper s"

definition APIViewMethodIntrospector ::
  "string \<Rightarrow> view_class \<Rightarrow> string \<Rightarrow> method_introspector" where
  "APIViewMethodIntrospector vpath cb m =
     \<lparr>method_name = m, http_method = None, path = vpath, callback = cb\<rparr>"

definition ViewSetMethodIntrospector ::
  "string \<Rightarrow> view_class \<Rightarrow> string \<Rightarrow> string \<Rightarrow> method_introspector" where
  "ViewSetMethodIntrospector vpath cb m h =
     \<lparr>method_name = m, http_method = Some (str_upper h), path = vpath, callback = cb\<rparr>"

definition get_http_method :: "method_introspector \<Rightarrow> string" where
  "get_http_method mi = (case http_method mi of None \<Rightarrow> method_name mi | Some h \<Rightarrow> h)"

definition retrieve_docstring :: "method_introspector \<Rightarrow> string option" where
  "retrieve_docstring mi =
     (case method_docs (callback mi) (str_lower (method_name mi)) of
        None \<Rightarrow> None
      | Some doc \<Rightarrow> doc)"

text \<open>
  \<open>build_query_params_from_docstring\<close>: the docstring of the method
  (\<open>retrieve_docstring() or ''\<close>), a newline and the description of the view are
  split into lines; each line goes through the loop body.
\<close>

definition docstring_with_description :: "method_introspector \<Rightarrow> string" where
  "docstring_with_description mi =
     (case retrieve_docstring mi of None \<Rightarrow> [] | Some d \<Rightarrow> d)
     @ [NL] @ view_description (callback mi)"

definition build_query_params_from_docstring :: "method_introspector \<Rightarrow> param list" where
  "build_query_params_from_docstring mi =
     List.map_filter param_from_line (str_split [NL] (docstring_with_description mi))"

section \<open>Path, body and form parameters\<close>

text \<open>
  \<open>re.findall('/{([^}]*)}', path)\<close>: the matches are found left to right and do
  not overlap. A match starts at a slash that an opening brace follows at once, runs over
  the characters that are not a closing brace and ends at the closing brace; each match
  gives its group, the text between the braces.
\<close>

function findall_path_tokens :: "string \<Rightarrow> string list" where
  "findall_path_tokens [] = []"
| "findall_path_tokens (c # cs) =
     (if c = CHR ''/'' \<and> prefix ''{'' cs \<and> CHR ''}'' \<in> set (tl cs)
      then takeWhile (\<lambda>x. x \<noteq> CHR ''}'') (tl cs)
           # findall_path_tokens (tl (dropWhile (\<lambda>x. x \<noteq> CHR ''}'') (tl cs)))
      else findall_path_tokens cs)"
  by pat_completeness auto
termination
proof (relation "measure length")
  fix c :: char and cs :: string
  have "length (dropWhile (\<lambda>x. x \<noteq> CHR ''}'') (tl cs)) \<le> length (tl cs)"
    by (rule length_dropWhile_le)
  then show "(tl (dropWhile (\<lambda>x. x \<noteq> CHR ''}'') (tl cs)), c # cs) \<in> measure length"
    by simp
qed simp_all

definition path_param :: "string \<Rightarrow> param" where
  "path_param t = (new_param t)\<lparr>dataType := Some (PStr ''string''),
                                 paramType := Some (PStr ''path''),
                                 required := Some (PBool True)\<rparr>"

definition build_path_parameters :: "method_introspector \<Rightarrow> param list" where
  "build_path_parameters mi = map path_param (findall_path_tokens (path mi))"

definition build_body_parameters :: "method_introspector \<Rightarrow> param option" where
  "build_body_parameters mi =
     (case get_serializer_class (callback mi) of
        None \<Rightarrow> None
      | Some ser \<Rightarrow>
          Some ((new_param (serializer_name ser))
                  \<lparr>dataType := Some (PStr (serializer_name ser)),
                   paramType := Some (PStr ''body'')\<rparr>))"

definition get_resolved_value :: "attr_value option \<Rightarrow> pyval" where
  "get_resolved_value a = (case a of None \<Rightarrow> PNone | Some (Plain v) \<Rightarrow> v | Some (Callable v) \<Rightarrow> v)"

definition or_default :: "'a option \<Rightarrow> 'a \<Rightarrow> 'a" where
  "or_default a d = (case a of None \<Rightarrow> d | Some v \<Rightarrow> v)"

text \<open>The truth value of \<open>getattr(field, 'read_only', False)\<close> decides the skip.\<close>

definition form_param :: "string \<Rightarrow> field_spec \<Rightarrow> param" where
  "form_param n f =
     (let mx = or_default (max_length f) PNone;
          mn = or_default (min_length f) PNone;
          allowable_values = (if mx \<noteq> PNone \<or> mn \<noteq> PNone then PRange mx mn else PNone)
      in \<lparr>name = n,
          dataType = Some (type_label f),
          paramType = Some (PStr ''form''),
          required = Some (or_default (field_required f) PNone),
          description = Some (or_default (help_text f) (PStr [])),
          allowableValues = Some allowable_values,
          defaultValue = Some (get_resolved_value (default f))\<rparr>)"

definition build_form_parameters :: "method_introspector \<Rightarrow> param list" where
  "build_form_parameters mi =
     (case get_serializer_class (callback mi) of
        None \<Rightarrow> []
      | Some ser \<Rightarrow>
          map (\<lambda>(n, f). form_param n f)
              (filter (\<lambda>(n, f). \<not> or_default (read_only f) False) (get_fields ser)))"

section \<open>The parameter merge\<close>

text \<open>
  \<open>param.update(doc_param)\<close>: every key of \<open>doc_param\<close> is written into
  \<open>param\<close>, the other keys of \<open>param\<close> keep their values.
\<close>

definition override :: "'a option \<Rightarrow> 'a option \<Rightarrow> 'a option" where
  "override old new = (case new of None \<Rightarrow> old | Some v \<Rightarrow> Some v)"

definition dict_update :: "param \<Rightarrow> param \<Rightarrow> param" where
  "dict_update p d =
     \<lparr>name = name d,
      dataType = override (dataType p) (dataType d),
      paramType = override (paramType p) (paramType d),
      required = override (required p) (required d),
      description = override (description p) (description d),
      allowableValues = override (allowableValues p) (allowableValues d),
      defaultValue = override (defaultValue p) (defaultValue d)\<rparr>"

text \<open>
  \<open>params_map\<close> maps a name to the dict object stored under it. The objects of
  \<open>params\<close> are pairwise distinct, so an object is given by its index in the list; a
  later parameter of the same name replaces the earlier one in the map.
\<close>

fun params_map_from :: "nat \<Rightarrow> param list \<Rightarrow> (string \<rightharpoonup> nat) \<Rightarrow> (string \<rightharpoonup> nat)" where
  "params_map_from i [] m = m"
| "params_map_from i (p # ps) m = params_map_from (Suc i) ps (m(name p \<mapsto> i))"

definition params_map :: "param list \<Rightarrow> (string \<rightharpoonup> nat)" where
  "params_map params = params_map_from 0 params Map.empty"

definition set_defaults :: "param \<Rightarrow> param" where
  "set_defaults d =
     d\<lparr>paramType := (case paramType d of None \<Rightarrow> Some (PStr ''query'') | Some v \<Rightarrow> Some v),
       dataType := (case dataType d of None \<Rightarrow> Some (PStr []) | Some v \<Rightarrow> Some v)\<rparr>"

text \<open>
  The loop over \<open>docstring_params\<close>. The map is built once, before the loop; an update
  changes the object in the list, an unknown name is appended with its defaults.
\<close>

fun merge_docstring_params :: "(string \<rightharpoonup> nat) \<Rightarrow> param list \<Rightarrow> param list \<Rightarrow> param list" where
  "merge_docstring_params pm params [] = params"
| "merge_docstring_params pm params (d # ds) =
     (case pm (name d) of
        Some i \<Rightarrow> merge_docstring_params pm (params[i := dict_update (params ! i) d]) ds
      | None \<Rightarrow> merge_docstring_params pm (params @ [set_defaults d]) ds)"

text \<open>
  The list \<open>params\<close> of \<open>get_parameters\<close> when the docstring parameters are reached:
  path parameters, then form parameters and the body fallback unless the method is
  \<open>GET\<close> or \<open>DELETE\<close>.
\<close>

definition params_before_docstring :: "method_introspector \<Rightarrow> param list" where
  "params_before_docstring mi =
     (let path_params = build_path_parameters mi;
          body_params = build_body_parameters mi;
          form_params = build_form_parameters mi
      in path_params
         @ (if get_http_method mi \<notin> {''GET'', ''DELETE''}
            then form_params
                 @ (if form_params = []
                    then (case body_params of None \<Rightarrow> [] | Some b \<Rightarrow> [b])
                    else [])
            else []))"

definition get_parameters :: "method_introspector \<Rightarrow> param list" where
  "get_parameters mi =
     (let params = params_before_docstring mi
      in merge_docstring_params (params_map params) params
           (build_query_params_from_docstring mi))"

section \<open>Notes: stripping the parameter lines\<close>

text \<open>
  \<open>trim_docstring\<close> is Django's (\<open>django.contrib.admindocs.utils\<close>), not a
  function of this repository: \<open>strip_params_from_docstring\<close> takes it as the
  parameter \<open>trim\<close>. The definitions below follow Django's text and give the
  parameter a value at concrete inputs:
  \<^verbatim>\<open>
  if not docstring or not docstring.strip(): return ''
  lines = docstring.expandtabs().splitlines()
  indent = min([len(line) - len(line.lstrip()) for line in lines if line.lstrip()])
  trimmed = [lines[0].lstrip()] + [line[indent:].rstrip() for line in lines[1:]]
  return "\n".join(trimmed).strip()
  \<close>
\<close>

fun expandtabs :: "nat \<Rightarrow> string \<Rightarrow> string" where
  "expandtabs col [] = []"
| "expandtabs col (c # cs) =
     (if c = CHR 0x09 then replicate (8 - col mod 8) (CHR '' '') @ expandtabs (col + (8 - col mod 8)) cs
      else if c = CHR 0x0A \<or> c = CHR 0x0D then c # expandtabs 0 cs
      else c # expandtabs (Suc col) cs)"

fun splitlines_acc :: "string \<Rightarrow> string \<Rightarrow> string list" where
  "splitlines_acc acc [] = (if acc = [] then [] else [rev acc])"
| "splitlines_acc acc [c] =
     (if c = CHR 0x0A \<or> c = CHR 0x0D then [rev acc] else [rev (c # acc)])"
| "splitlines_acc acc (c # d # cs) =
     (if c = CHR 0x0D \<and> d = CHR 0x0A then rev acc # splitlines_acc [] cs
      else if c = CHR 0x0A \<or> c = CHR 0x0D then rev acc # splitlines_acc [] (d # cs)
      else splitlines_acc (c # acc) (d # cs))"

definition trim_docstring :: "string \<Rightarrow> string" where
  "trim_docstring docstring =
     (if str_strip docstring = [] then []
      else
        (let lines = splitlines_acc [] (expandtabs 0 docstring);
             indents = map (\<lambda>line. length line - length (str_lstrip line))
                           (filter (\<lambda>line. str_lstrip line \<noteq> []) lines);
             indent = fold min (tl indents) (hd indents);
             trimmed = str_lstrip (hd lines) # map (\<lambda>line. str_rstrip (drop indent line)) (tl lines)
         in str_strip (str_join [NL] trimmed)))"

text \<open>
  The loop of \<open>strip_params_from_docstring\<close> over \<open>enumerate(split_lines)\<close>: the
  index of the first line whose stripped text has \<open>line.find('--') != -1\<close>.
\<close>

fun cut_off_from :: "nat \<Rightarrow> string list \<Rightarrow> nat option" where
  "cut_off_from i [] = None"
| "cut_off_from i (line # ls) =
     (if sublist ''--'' (str_strip line) then Some i else cut_off_from (Suc i) ls)"

definition br_or_line :: "string \<Rightarrow> string" where
  "br_or_line line = (if line = [] then ''<br/>'' else line)"

definition strip_params_from_docstring :: "(string \<Rightarrow> string) \<Rightarrow> string \<Rightarrow> string" where
  "strip_params_from_docstring trim docstring =
     (let split_lines = str_split [NL] (trim docstring);
          cut_off = cut_off_from 0 split_lines;
          split_lines' = (case cut_off of None \<Rightarrow> split_lines | Some i \<Rightarrow> take i split_lines)
      in str_join '' '' (map br_or_line split_lines'))"

text \<open>
  The notes as the specification words them: the cut is at the first line that contains
  the token of a parameter line, \<open>' -- '\<close>.
\<close>

definition notes_cut_at_spaced_token :: "(string \<Rightarrow> string) \<Rightarrow> string \<Rightarrow> string" where
  "notes_cut_at_spaced_token trim docstring =
     str_join '' '' (map br_or_line
       (takeWhile (\<lambda>line. \<not> sublist '' -- '' line) (str_split [NL] (trim docstring))))"

section \<open>View set introspection\<close>

datatype py_error = RuntimeError | TypeError | IndexError | ValueError | AttributeError

text \<open>
  The function object \<open>pattern.callback\<close>. An attribute is \<open>None\<close> when
  \<open>hasattr\<close> fails. \<open>cls\<close> is the view class; \<open>cls_instance\<close> holds
  \<open>isinstance(cls_instance, APIView)\<close>; \<open>func_closure\<close> is Python's \<open>None\<close> or a
  tuple of cells, an empty cell being \<open>None\<close> and a filled one its \<open>cell_contents\<close>.
\<close>

record code_object =
  co_freevars :: "string list option"

record 'a pattern_callback =
  cls :: "view_class option"
  cls_instance :: "bool option"
  func_code :: "code_object option"
  func_closure :: "'a option list option option"

text \<open>\<open>t.index(x)\<close> for an \<open>x\<close> that occurs in \<open>t\<close>.\<close>

fun index_of :: "'b \<Rightarrow> 'b list \<Rightarrow> nat" where
  "index_of x [] = 0"
| "index_of x (y # ys) = (if x = y then 0 else Suc (index_of x ys))"

text \<open>
  \<open>ViewSetIntrospector._resolve_methods\<close>. Past the guard, indexing Python's
  \<open>None\<close> raises TypeError, an index beyond the tuple IndexError and reading an
  empty cell ValueError.
\<close>

definition resolve_methods :: "'a pattern_callback \<Rightarrow> py_error + 'a" where
  "resolve_methods cb =
     (if func_code cb = None \<or> func_closure cb = None
         \<or> co_freevars (the (func_code cb)) = None
         \<or> ''actions'' \<notin> set (the (co_freevars (the (func_code cb))))
      then Inl RuntimeError
      else
        (let idx = index_of ''actions'' (the (co_freevars (the (func_code cb))))
         in case the (func_closure cb) of
              None \<Rightarrow> Inl TypeError
            | Some cells \<Rightarrow>
                (if idx < length cells
                 then (case cells ! idx of None \<Rightarrow> Inl ValueError | Some v \<Rightarrow> Inr v)
                 else Inl IndexError)))"

text \<open>
  \<open>ViewSetIntrospector.__iter__\<close>, the methods it yields as a list. The mapping of
  the closure is a dict from HTTP verb to action name, given by its items in iteration
  order. An exception of \<open>_resolve_methods\<close> leaves the generator.
\<close>

definition viewset_iter ::
  "string \<Rightarrow> view_class \<Rightarrow> (string \<times> string) list pattern_callback
     \<Rightarrow> py_error + method_introspector list" where
  "viewset_iter vpath vcb cb =
     (case resolve_methods cb of
        Inl e \<Rightarrow> Inl e
      | Inr methods \<Rightarrow> Inr (map (\<lambda>(h, m). ViewSetMethodIntrospector vpath vcb m h) methods))"

section \<open>Flattening the URL tree\<close>

text \<open>
  A node of \<open>urlpatterns\<close>: a \<open>RegexURLPattern\<close> with \<open>regex.pattern\<close> and its
  \<open>callback\<close> attribute (\<open>None\<close> when \<open>hasattr(pattern, 'callback')\<close> fails), a
  \<open>RegexURLResolver\<close> with \<open>namespace\<close>, \<open>regex.pattern\<close> and
  \<open>url_patterns\<close>, or an object of neither class.
\<close>

datatype 'a url_pattern =
    RegexURLPattern string "'a pattern_callback option"
  | RegexURLResolver "string option" string "'a url_pattern list"
  | OtherPattern

text \<open>The dict \<open>{'path': path, 'pattern': pattern, 'callback': callback}\<close>.\<close>

record 'a endpoint =
  api_path :: string
  api_pattern :: "'a url_pattern"
  api_callback :: view_class

text \<open>
  \<open>__get_pattern_api_callback__\<close>. In the second branch \<open>issubclass\<close> is given the
  instance: when \<open>isinstance(cls_instance, APIView)\<close> holds, the call raises
  TypeError.
\<close>

definition get_pattern_api_callback :: "'a pattern_callback option \<Rightarrow> py_error + view_class option" where
  "get_pattern_api_callback cbo =
     (case cbo of
        None \<Rightarrow> Inr None
      | Some cb \<Rightarrow>
          (if (case cls cb of None \<Rightarrow> False | Some c \<Rightarrow> is_APIView c \<and> \<not> is_APIDocView c)
           then Inr (cls cb)
           else if cls_instance cb = Some True then Inl TypeError
           else Inr None))"

definition exclude_router_api_root :: "view_class \<Rightarrow> bool" where
  "exclude_router_api_root c = (module c = ''rest_framework.routers'')"

definition exclude_format_endpoints :: "string \<Rightarrow> bool" where
  "exclude_format_endpoints p = sublist ''.{format}'' p"

definition replace_char :: "char \<Rightarrow> char \<Rightarrow> string \<Rightarrow> string" where
  "replace_char a b s = map (\<lambda>c. if c = a then b else c) s"

text \<open>
  \<open>__assemble_endpoint_data__\<close>, called on a \<open>RegexURLPattern\<close> only.
  \<open>simplify_regex\<close> is Django's and a parameter here.
\<close>

definition assemble_endpoint_data ::
  "(string \<Rightarrow> string) \<Rightarrow> 'a url_pattern \<Rightarrow> string \<Rightarrow> py_error + 'a endpoint option" where
  "assemble_endpoint_data simplify_regex pattern pfx =
     (case pattern of
        RegexURLPattern rx cbo \<Rightarrow>
          (case get_pattern_api_callback cbo of
             Inl e \<Rightarrow> Inl e
           | Inr None \<Rightarrow> Inr None
           | Inr (Some c) \<Rightarrow>
               (if exclude_router_api_root c then Inr None
                else
                  (let p = replace_char (CHR ''>'') (CHR ''}'')
                             (replace_char (CHR ''<'') (CHR ''{'') (simplify_regex (pfx @ rx)))
                   in if exclude_format_endpoints p then Inr None
                      else Inr (Some \<lparr>api_path = p, api_pattern = pattern, api_callback = c\<rparr>))))
      | _ \<Rightarrow> Inr None)"

text \<open>\<open>pattern.namespace in exclude_namespaces\<close>; Python's \<open>None\<close> is no namespace.\<close>

definition namespace_excluded :: "string option \<Rightarrow> string list \<Rightarrow> bool" where
  "namespace_excluded ns exclude_namespaces =
     (case ns of None \<Rightarrow> False | Some n \<Rightarrow> n \<in> set exclude_namespaces)"

text \<open>
  \<open>__flatten_patterns_tree__\<close>: the loop over \<open>patterns\<close> is
  \<open>flatten_patterns_tree\<close>, its body for one pattern \<open>flatten_pattern\<close>. The first
  exception ends the walk.
\<close>

fun flatten_patterns_tree ::
    "(string \<Rightarrow> string) \<Rightarrow> 'a url_pattern list \<Rightarrow> string \<Rightarrow> string list
       \<Rightarrow> py_error + 'a endpoint list"
  and flatten_pattern ::
    "(string \<Rightarrow> string) \<Rightarrow> 'a url_pattern \<Rightarrow> string \<Rightarrow> string list
       \<Rightarrow> py_error + 'a endpoint list" where
  "flatten_patterns_tree sr [] pfx ex = Inr []"
| "flatten_patterns_tree sr (p # ps) pfx ex =
     (case flatten_pattern sr p pfx ex of
        Inl e \<Rightarrow> Inl e
      | Inr xs \<Rightarrow>
          (case flatten_patterns_tree sr ps pfx ex of
             Inl e \<Rightarrow> Inl e
           | Inr ys \<Rightarrow> Inr (xs @ ys)))"
| "flatten_pattern sr (RegexURLPattern rx cbo) pfx ex =
     (case assemble_endpoint_data sr (RegexURLPattern rx cbo) pfx of
        Inl e \<Rightarrow> Inl e
      | Inr None \<Rightarrow> Inr []
      | Inr (Some endpoint_data) \<Rightarrow> Inr [endpoint_data])"
| "flatten_pattern sr (RegexURLResolver ns rx kids) pfx ex =
     (if namespace_excluded ns ex then Inr []
      else flatten_patterns_tree sr kids (pfx @ rx) ex)"
| "flatten_pattern sr OtherPattern pfx ex = Inr []"

text \<open>
  The tree without the resolvers of an excluded namespace, and the
  \<open>RegexURLPattern\<close> nodes of a tree.
\<close>

fun prune :: "string list \<Rightarrow> 'a url_pattern list \<Rightarrow> 'a url_pattern list" where
  "prune ex [] = []"
| "prune ex (RegexURLResolver ns rx kids # ps) =
     (if namespace_excluded ns ex then prune ex ps
      else RegexURLResolver ns rx (prune ex kids) # prune ex ps)"
| "prune ex (RegexURLPattern rx cbo # ps) = RegexURLPattern rx cbo # prune ex ps"
| "prune ex (OtherPattern # ps) = OtherPattern # prune ex ps"

fun leaves :: "'a url_pattern list \<Rightarrow> 'a url_pattern list" where
  "leaves [] = []"
| "leaves (RegexURLResolver ns rx kids # ps) = leaves kids @ leaves ps"
| "leaves (RegexURLPattern rx cbo # ps) = RegexURLPattern rx cbo # leaves ps"
| "leaves (OtherPattern # ps) = leaves ps"

section \<open>Models\<close>

text \<open>
  The model classes: \<open>class_name\<close> is \<open>__name__\<close>, \<open>class_doc\<close> is \<open>__doc__\<close>,
  \<open>get_releated_models_classes c\<close> is \<open>None\<close> when \<open>hasattr\<close> fails for the class
  \<open>c\<close> and the list the hook returns otherwise.
\<close>

record model_classes =
  class_name :: "nat \<Rightarrow> string"
  class_doc :: "nat \<Rightarrow> string option"
  get_releated_models_classes :: "nat \<Rightarrow> nat list option"

text \<open>
  \<open>_get_releated_classes_models_list\<close>. The recursion follows the relation hook and
  has no guard against a cycle; the first argument bounds the depth of the calls, and
  \<open>None\<close> says that the bound was reached.
\<close>

fun get_releated_classes_models_list :: "nat \<Rightarrow> model_classes \<Rightarrow> nat \<Rightarrow> nat list option" where
  "get_releated_classes_models_list 0 env obj_class = None"
| "get_releated_classes_models_list (Suc fuel) env obj_class =
     (case get_releated_models_classes env obj_class of
        None \<Rightarrow> Some []
      | Some releated_obj_classes \<Rightarrow>
          map_option (\<lambda>rest. releated_obj_classes @ concat rest)
            (those (map (\<lambda>c. if get_releated_models_classes env c \<noteq> None
                               then get_releated_classes_models_list fuel env c
                               else Some [])
                        releated_obj_classes)))"

text \<open>\<open>DocstrIntrospector.get_models\<close>.\<close>

definition introspector_get_models :: "nat \<Rightarrow> model_classes \<Rightarrow> view_class \<Rightarrow> nat list option" where
  "introspector_get_models fuel env cb =
     (case get_model_class cb of
        None \<Rightarrow> Some []
      | Some root_model \<Rightarrow>
          map_option (\<lambda>r. root_model # r) (get_releated_classes_models_list fuel env root_model))"

text \<open>
  \<open>DocstrCollector.get_models\<close>. For each api the introspector is built and
  \<open>intro.get_models()\<close> is evaluated; then \<open>intro.get_yaml_parser()\<close> is called.
  \<open>DocstrIntrospector\<close>, \<open>APIViewIntrospector\<close> and \<open>BaseViewIntrospector\<close>
  define no attribute \<open>get_yaml_parser\<close>, so the call raises AttributeError: the
  loop that would store \<open>models[cls.__name__]\<close> is not reached, and no later api
  is visited. Without an api the empty mapping is returned. The outer \<open>option\<close> is
  \<open>None\<close> when the depth bound of the relation walk was reached.
\<close>

fun collector_get_models ::
  "nat \<Rightarrow> model_classes \<Rightarrow> 'a endpoint list \<Rightarrow> (string \<rightharpoonup> pyval)
     \<Rightarrow> (py_error + (string \<rightharpoonup> pyval)) option" where
  "collector_get_models fuel env [] models = Some (Inr models)"
| "collector_get_models fuel env (api # apis) models =
     (case introspector_get_models fuel env (api_callback api) of
        None \<Rightarrow> None
      | Some models_classes \<Rightarrow> Some (Inl AttributeError))"

definition get_models ::
  "nat \<Rightarrow> model_classes \<Rightarrow> 'a endpoint list \<Rightarrow> (py_error + (string \<rightharpoonup> pyval)) option" where
  "get_models fuel env apis = collector_get_models fuel env apis Map.empty"

section \<open>Paths and their tokens\<close>

text \<open>
  A path written out as its pieces: each pair is a separator text followed by
  \<open>/{token}\<close>; \<open>rest\<close> is the text after the last token.
\<close>

fun path_with_tokens :: "(string \<times> string) list \<Rightarrow> string \<Rightarrow> string" where
  "path_with_tokens [] rest = rest"
| "path_with_tokens ((s, t) # segs) rest = s @ ''/{'' @ t @ ''}'' @ path_with_tokens segs rest"

text \<open>
  The tokens as the specification words them: every \<open>{token}\<close> group of the path,
  whatever precedes the opening brace.
\<close>

function brace_tokens :: "string \<Rightarrow> string list" where
  "brace_tokens [] = []"
| "brace_tokens (c # cs) =
     (if c = CHR ''{'' \<and> CHR ''}'' \<in> set cs
      then takeWhile (\<lambda>x. x \<noteq> CHR ''}'') cs
           # brace_tokens (tl (dropWhile (\<lambda>x. x \<noteq> CHR ''}'') cs))
      else brace_tokens cs)"
  by pat_completeness auto
termination
proof (relation "measure length")
  fix c :: char and cs :: string
  have "length (dropWhile (\<lambda>x. x \<noteq> CHR ''}'') cs) \<le> length cs"
    by (rule length_dropWhile_le)
  then show "(tl (dropWhile (\<lambda>x. x \<noteq> CHR ''}'') cs), c # cs) \<in> measure length"
    by simp
qed simp_all

section \<open>Sequencing two results\<close>

text \<open>
  The result of one part of a walk followed by the result of the next part: the first
  exception wins, two lists are appended.
\<close>

definition both :: "py_error + 'b list \<Rightarrow> py_error + 'b list \<Rightarrow> py_error + 'b list" where
  "both r1 r2 = (case r1 of Inl e \<Rightarrow> Inl e
                 | Inr xs \<Rightarrow> (case r2 of Inl e \<Rightarrow> Inl e | Inr ys \<Rightarrow> Inr (xs @ ys)))"

section \<open>Example inputs\<close>

text \<open>
  A view whose \<open>get\<close> method documents a tagged parameter, whose \<open>post\<close> method has
  no docstring and whose class description documents a parameter.
\<close>

definition example_view :: view_class where
  "example_view =
     \<lparr>view_description = ''List the items.'' @ NL # ''page -- page number'',
      method_docs = [''get'' \<mapsto> Some (''Return items.'' @ NL # ''foo -- bar [dataType=int][required]''),
                     ''post'' \<mapsto> None],
      get_serializer_class = None, is_APIView = True, is_APIDocView = False,
      module = ''app.views'', get_model_class = None\<rparr>"

text \<open>
  A writable text field and a read-only field; a view whose serializer has both and
  whose \<open>post\<close> method documents the parameter \<open>x\<close>; a view whose serializer has
  read-only fields only.
\<close>

definition text_field :: field_spec where
  "text_field = \<lparr>read_only = None, type_label = PStr [], max_length = Some (PInt 30),
                  min_length = None, help_text = Some (PStr ''a text''),
                  default = Some (Callable (PStr ''none'')), field_required = Some (PBool False)\<rparr>"

definition id_field :: field_spec where
  "id_field = \<lparr>read_only = Some True, type_label = PStr ''integer'', max_length = None,
                min_length = None, help_text = None, default = None, field_required = None\<rparr>"

definition item_view :: view_class where
  "item_view =
     \<lparr>view_description = ''Items.'',
      method_docs = [''post'' \<mapsto> Some (''Create an item.'' @ NL # ''x -- desc [dataType=int]''),
                     ''get'' \<mapsto> Some ''Read an item.''],
      get_serializer_class =
        Some \<lparr>serializer_name = ''ItemSerializer'',
              get_fields = [(''id'', id_field), (''x'', text_field)]\<rparr>,
      is_APIView = True, is_APIDocView = False, module = ''app.views'', get_model_class = None\<rparr>"

definition readonly_view :: view_class where
  "readonly_view =
     \<lparr>view_description = ''Report.'',
      method_docs = Map.empty,
      get_serializer_class =
        Some \<lparr>serializer_name = ''ReportSerializer'', get_fields = [(''id'', id_field)]\<rparr>,
      is_APIView = True, is_APIDocView = False, module = ''app.views'', get_model_class = None\<rparr>"

text \<open>
  A stand-in for Django's \<open>simplify_regex\<close> on patterns without groups: the anchors
  are dropped and the path starts with a slash.
\<close>

definition plain_simplify :: "string \<Rightarrow> string" where
  "plain_simplify rx =
     (let p = filter (\<lambda>c. c \<noteq> CHR ''^'' \<and> c \<noteq> CHR ''$'') rx
      in if prefix ''/'' p then p else ''/'' @ p)"

text \<open>
  A URL tree: a view at the top, the namespace \<open>admin\<close> with a view and a nested
  resolver, and the namespace \<open>api\<close> with a view.
\<close>

definition view_callback :: "view_class \<Rightarrow> unit pattern_callback" where
  "view_callback v = \<lparr>cls = Some v, cls_instance = None, func_code = None, func_closure = None\<rparr>"

definition example_urlpatterns :: "unit url_pattern list" where
  "example_urlpatterns =
     [RegexURLPattern ''^users/$'' (Some (view_callback example_view)),
      RegexURLResolver (Some ''admin'') ''^admin/''
        [RegexURLPattern ''^log/$'' (Some (view_callback item_view)),
         RegexURLResolver None ''^deep/''
           [RegexURLPattern ''^x/$'' (Some (view_callback readonly_view))]],
      RegexURLResolver (Some ''api'') ''^api/''
        [RegexURLPattern ''^items/$'' (Some (view_callback item_view))]]"

text \<open>
  Three callbacks: a function without free variables; the view function of a view set,
  whose closure binds \<open>cls\<close> and \<open>actions\<close>; a function whose closure binds
  \<open>actions\<close> alone.
\<close>

definition plain_function :: "(string \<times> string) list pattern_callback" where
  "plain_function = \<lparr>cls = Some item_view, cls_instance = None,
                       func_code = Some \<lparr>co_freevars = Some []\<rparr>,
                       func_closure = Some None\<rparr>"

definition viewset_function :: "((string \<times> string) list + string) pattern_callback" where
  "viewset_function =
     \<lparr>cls = Some item_view, cls_instance = None,
      func_code = Some \<lparr>co_freevars = Some [''cls'', ''actions'']\<rparr>,
      func_closure = Some (Some [Some (Inr ''ItemViewSet''),
                                 Some (Inl [(''get'', ''list''), (''post'', ''create'')])])\<rparr>"

definition actions_function :: "(string \<times> string) list pattern_callback" where
  "actions_function =
     \<lparr>cls = Some item_view, cls_instance = None,
      func_code = Some \<lparr>co_freevars = Some [''actions'']\<rparr>,
      func_closure = Some (Some [Some [(''get'', ''list''), (''post'', ''create'')]])\<rparr>"

text \<open>
  Four model classes \<open>A\<close>, \<open>B\<close>, \<open>C\<close> and \<open>D\<close>, numbered from 0: \<open>A\<close> relates
  to \<open>B\<close> and \<open>C\<close>, \<open>B\<close> to \<open>D\<close>, \<open>C\<close> to nothing, and \<open>D\<close> has no relation
  hook; a view whose model is \<open>A\<close>, and its api.
\<close>

definition example_models :: model_classes where
  "example_models =
     \<lparr>class_name = (\<lambda>i. if i = 0 then ''A'' else if i = 1 then ''B''
                          else if i = 2 then ''C'' else ''D''),
      class_doc = (\<lambda>i. if i = 0 then Some ''The root.'' else if i = 1 then Some ''A part.''
                         else if i = 2 then None else Some ''A leaf.''),
      get_releated_models_classes =
        (\<lambda>i. if i = 0 then Some [1, 2] else if i = 1 then Some [3]
              else if i = 2 then Some [] else None)\<rparr>"

definition model_view :: view_class where
  "model_view =
     \<lparr>view_description = ''Models.'', method_docs = Map.empty, get_serializer_class = None,
      is_APIView = True, is_APIDocView = False, module = ''app.views'',
      get_model_class = Some 0\<rparr>"

definition model_api :: "unit endpoint" where
  "model_api = \<lparr>api_path = ''/models/'',
                 api_pattern = RegexURLPattern ''^models/$'' (Some (view_callback model_view)),
                 api_callback = model_view\<rparr>"

section \<open>Properties of the notes\<close>

lemma sublist_dropWhile:
  assumes "xs \<noteq> []" "\<not> P (hd xs)"
  shows "sublist xs (dropWhile P s) = sublist xs s"
  using assms
proof (induction s)
  case Nil
  then show ?case by simp
next
  case (Cons c cs)
  show ?case
  proof (cases "P c")
    case True
    have "\<not> prefix xs (c # cs)"
    proof
      assume "prefix xs (c # cs)"
      with Cons.prems(1) have "hd xs = c" by (cases xs) auto
      with True Cons.prems(2) show False by simp
    qed
    with True Cons show ?thesis by (simp add: sublist_Cons_right)
  next
    case False
    then show ?thesis by simp
  qed
qed

lemma sublist_strip:
  assumes "xs \<noteq> []" "\<not> is_space (hd xs)" "\<not> is_space (last xs)"
  shows "sublist xs (str_strip s) = sublist xs s"
proof -
  have r: "rev xs \<noteq> []" "\<not> is_space (hd (rev xs))"
    using assms by (simp_all add: hd_rev)
  have "sublist xs (str_strip s) = sublist xs (rev (dropWhile is_space (rev (str_lstrip s))))"
    by (simp only: str_strip_def str_rstrip_def)
  also have "\<dots> = sublist (rev xs) (dropWhile is_space (rev (str_lstrip s)))"
    using sublist_rev [of "rev xs" "dropWhile is_space (rev (str_lstrip s))"]
    by (simp only: rev_rev_ident)
  also have "\<dots> = sublist (rev xs) (rev (str_lstrip s))"
    using r by (rule sublist_dropWhile)
  also have "\<dots> = sublist xs (str_lstrip s)"
    by (rule sublist_rev)
  also have "\<dots> = sublist xs s"
    unfolding str_lstrip_def using assms(1,2) by (rule sublist_dropWhile)
  finally show ?thesis .
qed

lemma dashes_strip: "sublist ''--'' (str_strip s) = sublist ''--'' s"
  by (rule sublist_strip) (simp_all add: is_space_def)

lemma cut_off_from_ge: "cut_off_from i ls = Some j \<Longrightarrow> i \<le> j"
proof (induction ls arbitrary: i)
  case Nil
  then show ?case by simp
next
  case (Cons l ls)
  show ?case
  proof (cases "sublist ''--'' (str_strip l)")
    case True
    with Cons.prems show ?thesis by simp
  next
    case False
    with Cons.prems have "cut_off_from (Suc i) ls = Some j" by simp
    then have "Suc i \<le> j" by (rule Cons.IH)
    then show ?thesis by simp
  qed
qed

lemma cut_off_from_take:
  "(case cut_off_from i ls of None \<Rightarrow> ls | Some j \<Rightarrow> take (j - i) ls)
     = takeWhile (\<lambda>l. \<not> sublist ''--'' l) ls"
proof (induction ls arbitrary: i)
  case Nil
  then show ?case by simp
next
  case (Cons l ls)
  show ?case
  proof (cases "sublist ''--'' l")
    case True
    then show ?thesis by (simp add: dashes_strip)
  next
    case False
    have ge: "\<And>j. cut_off_from (Suc i) ls = Some j \<Longrightarrow> Suc i \<le> j"
      by (rule cut_off_from_ge)
    show ?thesis
    proof (cases "cut_off_from (Suc i) ls")
      case None
      with False Cons.IH [of "Suc i"] show ?thesis by (simp add: dashes_strip)
    next
      case (Some j)
      with ge have "Suc i \<le> j" by simp
      then have "j - i = Suc (j - Suc i)" by arith
      then have "take (j - i) (l # ls) = l # take (j - Suc i) ls"
        by (simp only: take_Suc_Cons)
      moreover have "take (j - Suc i) ls = takeWhile (\<lambda>l. \<not> sublist ''--'' l) ls"
        using Some Cons.IH [of "Suc i"] by simp
      ultimately show ?thesis using False Some by (simp add: dashes_strip)
    qed
  qed
qed

lemma spaced_token_has_dashes: "sublist '' -- '' l \<Longrightarrow> sublist ''--'' l"
proof -
  assume "sublist '' -- '' l"
  moreover have "sublist ''--'' '' -- ''" by (simp add: sublist_Cons_right)
  ultimately show ?thesis by (meson sublist_order.order_trans)
qed

text \<open>
  C1 (as the code has it). For every docstring and every trimming function, the notes
  are cut at the first line of the trimmed docstring that contains two consecutive
  hyphens \<open>--\<close>, with or without spaces around them: the lines before it are kept,
  an empty line replaced by \<open><br/>\<close>, and joined by single spaces; no line at or
  after it is in the notes; a line without \<open>--\<close> never cuts. A line that contains
  the token \<open>' -- '\<close> contains \<open>--\<close>, so it always cuts.
\<close>

theorem strip_params_cut_at_first_dashes:
  "strip_params_from_docstring trim docstring =
     str_join '' '' (map br_or_line
       (takeWhile (\<lambda>line. \<not> sublist ''--'' line) (str_split [NL] (trim docstring))))
   \<and> (\<forall>line. sublist '' -- '' line \<longrightarrow> sublist ''--'' line)"
proof
  have "(case cut_off_from 0 (str_split [NL] (trim docstring)) of
           None \<Rightarrow> str_split [NL] (trim docstring)
         | Some j \<Rightarrow> take j (str_split [NL] (trim docstring)))
        = takeWhile (\<lambda>l. \<not> sublist ''--'' l) (str_split [NL] (trim docstring))"
    using cut_off_from_take [where i = 0 and ls = "str_split [NL] (trim docstring)"]
    by (simp split: option.splits)
  then show "strip_params_from_docstring trim docstring =
     str_join '' '' (map br_or_line
       (takeWhile (\<lambda>line. \<not> sublist ''--'' line) (str_split [NL] (trim docstring))))"
    by (simp only: strip_params_from_docstring_def Let_def)
  show "\<forall>line. sublist '' -- '' line \<longrightarrow> sublist ''--'' line"
    using spaced_token_has_dashes by blast
qed

theorem strip_params_cut_at_first_dashes_witness:
  "sublist '' -- '' ''id -- key'' \<and> sublist ''--'' ''id -- key''
   \<and> strip_params_from_docstring trim_docstring
         (''  Intro'' @ NL # NL # ''  more'' @ NL # ''  id -- key'' @ NL # ''  tail'')
       = ''Intro <br/> more''"
proof -
  let ?d = "''  Intro'' @ NL # NL # ''  more'' @ NL # ''  id -- key'' @ NL # ''  tail''"
  note main = strip_params_cut_at_first_dashes [of trim_docstring ?d]
  have a: "sublist '' -- '' ''id -- key''"
    by (simp add: sublist_Cons_right)
  from main have "sublist '' -- '' ''id -- key'' \<longrightarrow> sublist ''--'' ''id -- key''"
    by blast
  with a have b: "sublist ''--'' ''id -- key''" by blast
  have t: "str_split [NL] (trim_docstring ?d) = [''Intro'', [], ''more'', ''id -- key'', ''tail'']"
    by (simp add: trim_docstring_def str_split_def str_strip_def str_rstrip_def
        str_lstrip_def is_space_def)
  from main have "strip_params_from_docstring trim_docstring ?d =
     str_join '' '' (map br_or_line
       (takeWhile (\<lambda>line. \<not> sublist ''--'' line) (str_split [NL] (trim_docstring ?d))))"
    by (rule conjunct1)
  also have "\<dots> = ''Intro <br/> more''"
    unfolding t by (simp add: sublist_Cons_right br_or_line_def)
  finally show ?thesis using a b by blast
qed

text \<open>
  C1 as the specification states it fails: the line \<open>a--b\<close> does not contain the token
  \<open>' -- '\<close>, yet the notes stop before it.
\<close>

theorem strip_params_spaced_token_counterexample:
  "\<not> sublist '' -- '' ''a--b''
   \<and> str_split [NL] (trim_docstring (''Intro'' @ NL # ''a--b'' @ NL # ''tail''))
       = [''Intro'', ''a--b'', ''tail'']
   \<and> strip_params_from_docstring trim_docstring (''Intro'' @ NL # ''a--b'' @ NL # ''tail'')
       = ''Intro''
   \<and> notes_cut_at_spaced_token trim_docstring (''Intro'' @ NL # ''a--b'' @ NL # ''tail'')
       = ''Intro a--b tail''"
  by (simp add: strip_params_from_docstring_def notes_cut_at_spaced_token_def
      trim_docstring_def str_split_def sublist_Cons_right str_strip_def str_rstrip_def
      str_lstrip_def is_space_def br_or_line_def)

section \<open>Properties of the inline parameters\<close>

lemma split_acc_no_sep:
  "\<not> sublist sep s \<Longrightarrow> split_acc sep acc s = [rev acc @ s]"
proof (induction s arbitrary: acc)
  case Nil
  then show ?case by simp
next
  case (Cons c cs)
  from Cons.prems have np: "\<not> prefix sep (c # cs)" and ns: "\<not> sublist sep cs"
    by (simp_all add: sublist_Cons_right)
  from Cons.IH [OF ns, of "c # acc"] np show ?case by simp
qed

lemma prefix_within:
  assumes "prefix sep (n @ sep @ d)" "n \<noteq> []"
  shows "prefix sep (n @ butlast sep)"
proof -
  have len: "length sep \<le> length (n @ butlast sep)"
    using assms(2) by (cases n) simp_all
  have "prefix (n @ butlast sep) (n @ sep @ d)"
    by (simp add: prefix_def) (metis append_butlast_last_id append_Nil2 append.assoc butlast.simps(1))
  with assms(1) len show ?thesis
    by (metis prefix_length_prefix)
qed

lemma split_acc_first:
  assumes "sep \<noteq> []" "\<not> sublist sep (n @ butlast sep)"
  shows "split_acc sep acc (n @ sep @ d) = (rev acc @ n) # split_acc sep [] d"
  using assms(2)
proof (induction n arbitrary: acc)
  case Nil
  from assms(1) obtain c cs where sep: "sep = c # cs" by (cases sep) auto
  then show ?case by simp
next
  case (Cons x n)
  have np: "\<not> prefix sep ((x # n) @ sep @ d)"
  proof
    assume "prefix sep ((x # n) @ sep @ d)"
    then have "prefix sep ((x # n) @ butlast sep)" by (rule prefix_within) simp
    then have "sublist sep ((x # n) @ butlast sep)" by (rule prefix_imp_sublist)
    with Cons.prems show False by simp
  qed
  from Cons.prems have "\<not> sublist sep (n @ butlast sep)"
    by (simp add: sublist_Cons_right)
  from Cons.IH [OF this, of "x # acc"] np show ?case by simp
qed

lemma first_occurrence:
  assumes "sep \<noteq> []"
  shows "sublist sep s \<Longrightarrow> \<exists>n d. s = n @ sep @ d \<and> \<not> sublist sep (n @ butlast sep)"
proof (induction s)
  case Nil
  with assms show ?case by simp
next
  case (Cons c cs)
  show ?case
  proof (cases "prefix sep (c # cs)")
    case True
    then obtain d where "c # cs = sep @ d" by (auto simp: prefix_def)
    moreover have "\<not> sublist sep (butlast sep)"
    proof
      assume "sublist sep (butlast sep)"
      then have "length sep \<le> length (butlast sep)" by (rule sublist_length_le)
      with assms show False by (simp add: length_greater_0_conv [symmetric] del: length_greater_0_conv)
    qed
    ultimately have "c # cs = [] @ sep @ d \<and> \<not> sublist sep ([] @ butlast sep)" by simp
    then show ?thesis by blast
  next
    case False
    with Cons.prems have "sublist sep cs" by (simp add: sublist_Cons_right)
    from Cons.IH [OF this] obtain n d where
      cs: "cs = n @ sep @ d" and no: "\<not> sublist sep (n @ butlast sep)" by blast
    have "\<not> prefix sep ((c # n) @ butlast sep)"
    proof
      assume p: "prefix sep ((c # n) @ butlast sep)"
      have "prefix ((c # n) @ butlast sep) ((c # n) @ sep @ d)"
        by (simp add: prefix_def) (metis append_butlast_last_id append_Nil2 append.assoc butlast.simps(1))
      with p have "prefix sep ((c # n) @ sep @ d)" by (rule prefix_order.order_trans)
      with False cs show False by simp
    qed
    with no have "\<not> sublist sep ((c # n) @ butlast sep)"
      by (simp add: sublist_Cons_right)
    with cs have "c # cs = (c # n) @ sep @ d \<and> \<not> sublist sep ((c # n) @ butlast sep)" by simp
    then show ?thesis by blast
  qed
qed

lemma split_acc_nonempty: "split_acc sep acc s \<noteq> []"
  by (induction sep acc s rule: split_acc.induct) auto

lemma split_acc_singleton:
  assumes "sep \<noteq> []"
  shows "(\<exists>x. split_acc sep acc s = [x]) \<longleftrightarrow> \<not> sublist sep s"
proof
  assume one: "\<exists>x. split_acc sep acc s = [x]"
  show "\<not> sublist sep s"
  proof
    assume "sublist sep s"
    from first_occurrence [OF assms this] obtain n d where
      s: "s = n @ sep @ d" and no: "\<not> sublist sep (n @ butlast sep)" by blast
    have "split_acc sep acc s = (rev acc @ n) # split_acc sep [] d"
      unfolding s using assms no by (rule split_acc_first)
    with one split_acc_nonempty [of sep "[]" d] show False by auto
  qed
next
  assume "\<not> sublist sep s"
  then show "\<exists>x. split_acc sep acc s = [x]" by (simp add: split_acc_no_sep)
qed

lemma split_two:
  assumes "\<not> sublist '' -- '' (n @ '' --'')" "\<not> sublist '' -- '' d"
  shows "str_split '' -- '' (n @ '' -- '' @ d) = [n, d]"
proof -
  have "split_acc '' -- '' [] (n @ '' -- '' @ d) = (rev [] @ n) # split_acc '' -- '' [] d"
    by (rule split_acc_first) (use assms(1) in simp_all)
  also have "split_acc '' -- '' [] d = [rev [] @ d]"
    using assms(2) by (rule split_acc_no_sep)
  finally show ?thesis by (simp add: str_split_def)
qed

lemma split_three:
  assumes "\<not> sublist '' -- '' (n @ '' --'')" "sublist '' -- '' d"
  shows "\<exists>x y z zs. str_split '' -- '' (n @ '' -- '' @ d) = x # y # z # zs"
proof -
  have a: "split_acc '' -- '' [] (n @ '' -- '' @ d) = (rev [] @ n) # split_acc '' -- '' [] d"
    by (rule split_acc_first) (use assms(1) in simp_all)
  have "\<not> (\<exists>x. split_acc '' -- '' [] d = [x])"
    using assms(2) split_acc_singleton [of "'' -- ''" "[]" d] by simp
  moreover have "split_acc '' -- '' [] d \<noteq> []" by (rule split_acc_nonempty)
  ultimately obtain y z zs where "split_acc '' -- '' [] d = y # z # zs"
    by (cases "split_acc '' -- '' [] d" rule: list.exhaust [case_names Nil Cons])
       (auto simp: neq_Nil_conv)
  with a show ?thesis by (simp add: str_split_def)
qed

lemma tag_names [simp]:
  "name (fst (param_type_tag p s)) = name p"
  "name (fst (required_tag p s)) = name p"
  "name (fst (data_type_tag p s)) = name p"
  by (simp_all add: param_type_tag_def required_tag_def data_type_tag_def split: option.splits)

lemma param_from_line_name:
  assumes "str_split '' -- '' line = [n, d]"
  shows "\<exists>p. param_from_line line = Some p \<and> name p = str_strip n"
  using assms
  by (simp add: param_from_line_def case_prod_beta new_param_def)

lemma no_bracket_no_tag: "CHR ''['' \<notin> set d \<Longrightarrow> \<not> sublist (CHR ''['' # t) d"
  using set_mono_sublist [of "CHR ''['' # t" d] by auto

lemma data_type_scan_no_bracket: "CHR ''['' \<notin> set s \<Longrightarrow> data_type_scan s = None"
  by (induction s) (auto simp: data_type_here_def)

lemma data_type_match_no_bracket: "CHR ''['' \<notin> set s \<Longrightarrow> data_type_match s = None"
proof -
  assume "CHR ''['' \<notin> set s"
  then have "CHR ''['' \<notin> set (takeWhile (\<lambda>c. c \<noteq> NL) s)"
    by (auto dest: set_takeWhileD)
  then show ?thesis unfolding data_type_match_def by (rule data_type_scan_no_bracket)
qed

lemma tags_no_bracket:
  assumes "CHR ''['' \<notin> set s"
  shows "param_type_tag p s = (p, s)" "required_tag p s = (p, s)" "data_type_tag p s = (p, s)"
  using assms
  by (simp_all add: param_type_tag_def required_tag_def data_type_tag_def no_bracket_no_tag
      data_type_match_no_bracket)

lemma param_from_line_plain:
  assumes "str_split '' -- '' line = [n, d]" "CHR ''['' \<notin> set d"
  shows "param_from_line line = Some ((new_param (str_strip n))\<lparr>description := Some (PStr (str_strip d))\<rparr>)"
  using assms by (simp add: param_from_line_def tags_no_bracket)

lemma rstrip_split:
  "xs = rev (dropWhile P (rev xs)) @ rev (takeWhile P (rev xs))"
proof -
  have "rev (rev xs) = rev (takeWhile P (rev xs) @ dropWhile P (rev xs))"
    by (simp only: takeWhile_dropWhile_id)
  then show ?thesis by (simp only: rev_rev_ident rev_append)
qed

lemma str_strip_decomposition:
  "\<exists>a b. s = a @ str_strip s @ b \<and> (\<forall>c \<in> set a. is_space c) \<and> (\<forall>c \<in> set b. is_space c)"
proof -
  let ?t = "dropWhile is_space s"
  let ?a = "takeWhile is_space s"
  let ?b = "rev (takeWhile is_space (rev ?t))"
  have t: "?t = str_strip s @ ?b"
    unfolding str_strip_def str_rstrip_def str_lstrip_def by (rule rstrip_split)
  have "s = ?a @ ?t" by simp
  with t have "s = ?a @ str_strip s @ ?b" by simp
  moreover have "\<forall>c \<in> set ?a. is_space c" by (auto dest: set_takeWhileD)
  moreover have "\<forall>c \<in> set ?b. is_space c" by (auto dest: set_takeWhileD)
  ultimately show ?thesis by blast
qed

lemma str_strip_ends:
  assumes "str_strip s \<noteq> []"
  shows "\<not> is_space (hd (str_strip s)) \<and> \<not> is_space (last (str_strip s))"
proof -
  let ?t = "dropWhile is_space s"
  let ?u = "dropWhile is_space (rev ?t)"
  have u: "str_strip s = rev ?u" by (simp add: str_strip_def str_rstrip_def str_lstrip_def)
  with assms have un: "?u \<noteq> []" by simp
  then have "\<not> is_space (hd ?u)" by (rule hd_dropWhile)
  then have l: "\<not> is_space (last (str_strip s))" using un by (simp add: u last_rev)
  have tn: "?t \<noteq> []"
  proof
    assume "?t = []"
    then have "?u = dropWhile is_space (rev [])"
      by (rule arg_cong [where f = "\<lambda>x. dropWhile is_space (rev x)"])
    with un show False by simp
  qed
  then have ht: "\<not> is_space (hd ?t)" by (rule hd_dropWhile)
  have "?t = str_strip s @ rev (takeWhile is_space (rev ?t))"
    unfolding str_strip_def str_rstrip_def str_lstrip_def by (rule rstrip_split)
  then have "hd ?t = hd (str_strip s @ rev (takeWhile is_space (rev ?t)))" by (rule arg_cong)
  with assms have "hd ?t = hd (str_strip s)" by simp
  with ht l show ?thesis by simp
qed

lemma str_remove_no_occurrence:
  "\<not> sublist old s \<Longrightarrow> str_remove old s = s"
proof (induction s)
  case Nil
  show ?case by simp
next
  case (Cons c cs)
  from Cons.prems have np: "\<not> prefix old (c # cs)" and ns: "\<not> sublist old cs"
    by (simp_all add: sublist_Cons_right)
  from Cons.IH [OF ns] np show ?case by simp
qed

lemma str_remove_first:
  assumes "old \<noteq> []" "\<not> sublist old (a @ butlast old)"
  shows "str_remove old (a @ old @ b) = a @ str_remove old b"
  using assms(2)
proof (induction a)
  case Nil
  from assms(1) obtain c cs where "old = c # cs" by (cases old) auto
  then show ?case by simp
next
  case (Cons x a)
  have np: "\<not> prefix old ((x # a) @ old @ b)"
  proof
    assume "prefix old ((x # a) @ old @ b)"
    then have "prefix old ((x # a) @ butlast old)" by (rule prefix_within) simp
    then have "sublist old ((x # a) @ butlast old)" by (rule prefix_imp_sublist)
    with Cons.prems show False by simp
  qed
  from Cons.prems have "\<not> sublist old (a @ butlast old)"
    by (simp add: sublist_Cons_right)
  from Cons.IH [OF this] np show ?case by simp
qed

lemma before_last_split:
  assumes "c \<in> set s"
  shows "\<exists>b. s = before_last c s @ c # b \<and> c \<notin> set b"
proof -
  let ?tw = "takeWhile (\<lambda>x. x \<noteq> c) (rev s)"
  let ?dw = "dropWhile (\<lambda>x. x \<noteq> c) (rev s)"
  from assms have "c \<in> set (rev s)" by simp
  then have dn: "?dw \<noteq> []" by simp
  then have "\<not> (hd ?dw \<noteq> c)" by (rule hd_dropWhile)
  with dn have dw: "?dw = c # tl ?dw" by (cases ?dw) auto
  have "s = rev ?dw @ rev ?tw" by (rule rstrip_split)
  also have "rev ?dw = rev (c # tl ?dw)" using dw by simp
  finally have "s = before_last c s @ c # rev ?tw" by (simp add: before_last_def)
  moreover have "c \<notin> set (rev ?tw)" by (auto dest: set_takeWhileD)
  ultimately show ?thesis by blast
qed

lemma before_last_nonempty:
  assumes "g \<noteq> []"
  shows "before_last c (g @ c # b) \<noteq> []"
proof
  assume e: "before_last c (g @ c # b) = []"
  have "c \<in> set (g @ c # b)" by simp
  from before_last_split [OF this] obtain b' where
    s: "g @ c # b = before_last c (g @ c # b) @ c # b'" and n: "c \<notin> set b'" by blast
  from s e have "g @ c # b = c # b'" by simp
  with assms obtain g' where "g = c # g'" "g' @ c # b = b'" by (cases g) auto
  then have "c \<in> set b'" by auto
  with n show False by simp
qed

lemma data_type_here_Some:
  assumes "data_type_here t = Some (g1, g2)"
  shows "g1 = ''[dataType='' @ g2 @ '']'' \<and> g2 \<noteq> []
         \<and> (\<exists>b. t = g1 @ b \<and> CHR '']'' \<notin> set b)"
proof -
  from assms have p: "prefix ''[dataType='' t"
    by (simp add: data_type_here_def split: if_splits)
  then obtain rest where t: "t = ''[dataType='' @ rest" by (auto simp: prefix_def)
  then have d: "drop 10 t = rest" by simp
  from assms p d have m: "CHR '']'' \<in> set rest" and g2: "g2 = before_last (CHR '']'') rest"
    and ne: "g2 \<noteq> []" and g1: "g1 = ''[dataType='' @ g2 @ '']''"
    by (auto simp: data_type_here_def Let_def split: if_splits)
  from before_last_split [OF m] g2 obtain b where
    "rest = g2 @ CHR '']'' # b" "CHR '']'' \<notin> set b" by blast
  with t g1 have "t = g1 @ b \<and> CHR '']'' \<notin> set b" by simp
  with g1 ne show ?thesis by blast
qed

lemma data_type_here_complete:
  assumes "g \<noteq> []"
  shows "data_type_here (''[dataType='' @ g @ '']'' @ b) \<noteq> None"
proof -
  have "before_last (CHR '']'') (g @ CHR '']'' # b) \<noteq> []"
    using assms by (rule before_last_nonempty)
  then show ?thesis by (simp add: data_type_here_def Let_def)
qed

lemma data_type_here_None:
  "data_type_here t = None \<longleftrightarrow> \<not> (\<exists>g b. t = ''[dataType='' @ g @ '']'' @ b \<and> g \<noteq> [])"
proof
  assume n: "data_type_here t = None"
  show "\<not> (\<exists>g b. t = ''[dataType='' @ g @ '']'' @ b \<and> g \<noteq> [])"
  proof
    assume "\<exists>g b. t = ''[dataType='' @ g @ '']'' @ b \<and> g \<noteq> []"
    then obtain g b where "t = ''[dataType='' @ g @ '']'' @ b" "g \<noteq> []" by blast
    with data_type_here_complete [of g b] n show False by simp
  qed
next
  assume n: "\<not> (\<exists>g b. t = ''[dataType='' @ g @ '']'' @ b \<and> g \<noteq> [])"
  show "data_type_here t = None"
  proof (cases "data_type_here t")
    case None
    then show ?thesis .
  next
    case (Some r)
    obtain g1 g2 where "r = (g1, g2)" by (cases r)
    with Some have "data_type_here t = Some (g1, g2)" by simp
    from data_type_here_Some [OF this] obtain b where
      "t = (''[dataType='' @ g2 @ '']'') @ b" "g2 \<noteq> []" by blast
    then have "t = ''[dataType='' @ g2 @ '']'' @ b \<and> g2 \<noteq> []" by simp
    with n show ?thesis by blast
  qed
qed

lemma completable_Cons:
  "(\<exists>a g b. c # cs = a @ ''[dataType='' @ g @ '']'' @ b \<and> g \<noteq> [])
     \<longleftrightarrow> (\<exists>g b. c # cs = ''[dataType='' @ g @ '']'' @ b \<and> g \<noteq> [])
         \<or> (\<exists>a g b. cs = a @ ''[dataType='' @ g @ '']'' @ b \<and> g \<noteq> [])"
proof
  assume "\<exists>a g b. c # cs = a @ ''[dataType='' @ g @ '']'' @ b \<and> g \<noteq> []"
  then obtain a g b where h: "c # cs = a @ ''[dataType='' @ g @ '']'' @ b" "g \<noteq> []" by blast
  show "(\<exists>g b. c # cs = ''[dataType='' @ g @ '']'' @ b \<and> g \<noteq> [])
         \<or> (\<exists>a g b. cs = a @ ''[dataType='' @ g @ '']'' @ b \<and> g \<noteq> [])"
  proof (cases a)
    case Nil
    with h have "c # cs = ''[dataType='' @ g @ '']'' @ b \<and> g \<noteq> []" by simp
    then show ?thesis by blast
  next
    case (Cons x a')
    with h have "cs = a' @ ''[dataType='' @ g @ '']'' @ b \<and> g \<noteq> []" by simp
    then show ?thesis by blast
  qed
next
  assume "(\<exists>g b. c # cs = ''[dataType='' @ g @ '']'' @ b \<and> g \<noteq> [])
         \<or> (\<exists>a g b. cs = a @ ''[dataType='' @ g @ '']'' @ b \<and> g \<noteq> [])"
  then show "\<exists>a g b. c # cs = a @ ''[dataType='' @ g @ '']'' @ b \<and> g \<noteq> []"
  proof
    assume "\<exists>g b. c # cs = ''[dataType='' @ g @ '']'' @ b \<and> g \<noteq> []"
    then obtain g b where "c # cs = [] @ ''[dataType='' @ g @ '']'' @ b \<and> g \<noteq> []" by auto
    then show ?thesis by blast
  next
    assume "\<exists>a g b. cs = a @ ''[dataType='' @ g @ '']'' @ b \<and> g \<noteq> []"
    then obtain a g b where "cs = a @ ''[dataType='' @ g @ '']'' @ b" "g \<noteq> []" by blast
    then have "c # cs = (c # a) @ ''[dataType='' @ g @ '']'' @ b \<and> g \<noteq> []" by simp
    then show ?thesis by blast
  qed
qed

lemma data_type_scan_None:
  "data_type_scan t = None \<longleftrightarrow> \<not> (\<exists>a g b. t = a @ ''[dataType='' @ g @ '']'' @ b \<and> g \<noteq> [])"
proof (induction t)
  case Nil
  show ?case by simp
next
  case (Cons c cs)
  have "data_type_scan (c # cs) = None
          \<longleftrightarrow> data_type_scan cs = None \<and> data_type_here (c # cs) = None"
    by (simp split: option.splits)
  also have "\<dots> \<longleftrightarrow> \<not> (\<exists>a g b. cs = a @ ''[dataType='' @ g @ '']'' @ b \<and> g \<noteq> [])
                     \<and> \<not> (\<exists>g b. c # cs = ''[dataType='' @ g @ '']'' @ b \<and> g \<noteq> [])"
    by (simp only: Cons.IH data_type_here_None)
  also have "\<dots> \<longleftrightarrow> \<not> (\<exists>a g b. c # cs = a @ ''[dataType='' @ g @ '']'' @ b \<and> g \<noteq> [])"
    using completable_Cons [of c cs] by blast
  finally show ?case .
qed

lemma data_type_scan_Some:
  "data_type_scan t = Some (g1, g2) \<Longrightarrow>
     g1 = ''[dataType='' @ g2 @ '']'' \<and> g2 \<noteq> []
     \<and> (\<exists>a b. t = a @ g1 @ b \<and> CHR '']'' \<notin> set b \<and> data_type_scan (tl (g1 @ b)) = None)"
proof (induction t)
  case Nil
  then show ?case by simp
next
  case (Cons c cs)
  show ?case
  proof (cases "data_type_scan cs")
    case None
    with Cons.prems have h: "data_type_here (c # cs) = Some (g1, g2)" by simp
    from data_type_here_Some [OF h] obtain b where
      g: "g1 = ''[dataType='' @ g2 @ '']''" "g2 \<noteq> []" and
      b: "c # cs = g1 @ b" "CHR '']'' \<notin> set b" by blast
    from b(1) have "tl (g1 @ b) = cs" by (metis list.sel(3))
    with None have "data_type_scan (tl (g1 @ b)) = None" by simp
    with b have "c # cs = [] @ g1 @ b \<and> CHR '']'' \<notin> set b
                 \<and> data_type_scan (tl (g1 @ b)) = None" by simp
    with g show ?thesis by blast
  next
    case (Some r)
    with Cons.prems have "data_type_scan cs = Some (g1, g2)" by simp
    from Cons.IH [OF this] obtain a b where
      g: "g1 = ''[dataType='' @ g2 @ '']''" "g2 \<noteq> []" and
      b: "cs = a @ g1 @ b" "CHR '']'' \<notin> set b" "data_type_scan (tl (g1 @ b)) = None" by blast
    from b have "c # cs = (c # a) @ g1 @ b \<and> CHR '']'' \<notin> set b
                 \<and> data_type_scan (tl (g1 @ b)) = None" by simp
    with g show ?thesis by blast
  qed
qed

lemma data_type_match_None:
  "data_type_match s = None \<longleftrightarrow>
     \<not> (\<exists>a g b. takeWhile (\<lambda>c. c \<noteq> NL) s = a @ ''[dataType='' @ g @ '']'' @ b \<and> g \<noteq> [])"
  unfolding data_type_match_def by (rule data_type_scan_None)

lemma data_type_match_Some:
  assumes "data_type_match s = Some (g1, g2)"
  shows "g1 = ''[dataType='' @ g2 @ '']'' \<and> g2 \<noteq> []
         \<and> (\<exists>a b. takeWhile (\<lambda>c. c \<noteq> NL) s = a @ g1 @ b \<and> CHR '']'' \<notin> set b
                \<and> \<not> (\<exists>a' g' b'. tl (g1 @ b) = a' @ ''[dataType='' @ g' @ '']'' @ b'
                                  \<and> g' \<noteq> []))"
  using data_type_scan_Some [of "takeWhile (\<lambda>c. c \<noteq> NL) s" g1 g2] assms
  unfolding data_type_match_def data_type_scan_None by blast

lemma tag_results:
  "param_type_tag p d =
     (p\<lparr>paramType := (if sublist ''[paramType=form]'' d then Some (PStr ''form'')
                       else if sublist ''[paramType=body]'' d then Some (PStr ''body'')
                       else paramType p)\<rparr>,
      if sublist ''[paramType=form]'' d then str_remove ''[paramType=form]'' d
      else if sublist ''[paramType=body]'' d then str_remove ''[paramType=body]'' d
      else d)"
  "required_tag p d =
     (p\<lparr>required := (if sublist ''[required]'' d then Some (PBool True) else required p)\<rparr>,
      if sublist ''[required]'' d then str_remove ''[required]'' d else d)"
  "data_type_tag p d =
     (p\<lparr>dataType := (case data_type_match d of None \<Rightarrow> dataType p
                      | Some (g1, g2) \<Rightarrow> Some (PStr g2))\<rparr>,
      case data_type_match d of None \<Rightarrow> d | Some (g1, g2) \<Rightarrow> str_remove g1 d)"
  by (simp_all add: param_type_tag_def required_tag_def data_type_tag_def
      split: option.splits prod.splits)

lemma param_from_line_record:
  assumes "str_split '' -- '' line = [n, d]"
  shows "param_from_line line =
     (let d1 = (if sublist ''[paramType=form]'' d then str_remove ''[paramType=form]'' d
                else if sublist ''[paramType=body]'' d then str_remove ''[paramType=body]'' d
                else d);
          d2 = (if sublist ''[required]'' d1 then str_remove ''[required]'' d1 else d1)
      in Some \<lparr>name = str_strip n,
                dataType = (case data_type_match d2 of None \<Rightarrow> None
                            | Some (g1, g2) \<Rightarrow> Some (PStr g2)),
                paramType = (if sublist ''[paramType=form]'' d then Some (PStr ''form'')
                             else if sublist ''[paramType=body]'' d then Some (PStr ''body'')
                             else None),
                required = (if sublist ''[required]'' d1 then Some (PBool True) else None),
                description =
                  Some (PStr (str_strip (case data_type_match d2 of None \<Rightarrow> d2
                                         | Some (g1, g2) \<Rightarrow> str_remove g1 d2))),
                allowableValues = None, defaultValue = None\<rparr>)"
proof -
  define d1 where "d1 = (if sublist ''[paramType=form]'' d then str_remove ''[paramType=form]'' d
                else if sublist ''[paramType=body]'' d then str_remove ''[paramType=body]'' d
                else d)"
  define d2 where "d2 = (if sublist ''[required]'' d1 then str_remove ''[required]'' d1 else d1)"
  define d3 where "d3 = (case data_type_match d2 of None \<Rightarrow> d2
                         | Some (g1, g2) \<Rightarrow> str_remove g1 d2)"
  define pt where "pt = (if sublist ''[paramType=form]'' d then Some (PStr ''form'')
                         else if sublist ''[paramType=body]'' d then Some (PStr ''body'')
                         else None)"
  define rq where "rq = (if sublist ''[required]'' d1 then Some (PBool True) else None)"
  define dt where "dt = (case data_type_match d2 of None \<Rightarrow> None
                         | Some (g1, g2) \<Rightarrow> Some (PStr g2))"
  define p0 where "p0 = new_param (str_strip n)"
  have f0: "paramType p0 = None" "required p0 = None" "dataType p0 = None"
    by (simp_all add: p0_def new_param_def)
  have a: "param_type_tag p0 d = (p0\<lparr>paramType := pt\<rparr>, d1)"
    by (simp only: tag_results f0 pt_def d1_def)
  have b: "required_tag (p0\<lparr>paramType := pt\<rparr>) d1 = (p0\<lparr>paramType := pt, required := rq\<rparr>, d2)"
    using f0 by (simp add: tag_results rq_def d2_def split del: if_split cong: if_cong)
  have c: "data_type_tag (p0\<lparr>paramType := pt, required := rq\<rparr>) d2
             = (p0\<lparr>paramType := pt, required := rq, dataType := dt\<rparr>, d3)"
    using f0
    by (simp add: tag_results dt_def d3_def split del: if_split cong: if_cong option.case_cong)
  have "param_from_line line
          = Some (p0\<lparr>paramType := pt, required := rq, dataType := dt,
                     description := Some (PStr (str_strip d3))\<rparr>)"
    by (simp add: param_from_line_def assms p0_def [symmetric] a b c)
  also have "p0\<lparr>paramType := pt, required := rq, dataType := dt,
                 description := Some (PStr (str_strip d3))\<rparr>
             = \<lparr>name = str_strip n, dataType = dt, paramType = pt, required = rq,
                 description = Some (PStr (str_strip d3)),
                 allowableValues = None, defaultValue = None\<rparr>"
    by (simp add: p0_def new_param_def)
  finally have "param_from_line line =
      Some \<lparr>name = str_strip n, dataType = dt, paramType = pt, required = rq,
             description = Some (PStr (str_strip d3)),
             allowableValues = None, defaultValue = None\<rparr>" .
  then show ?thesis
    by (simp only: Let_def dt_def pt_def rq_def d3_def d2_def d1_def)
qed

text \<open>
  C2 (as the code has it). A line is a parameter candidate exactly when splitting it
  at \<open>' -- '\<close> gives two pieces, that is when the left-to-right scan finds one
  occurrence of \<open>' -- '\<close>: a line without an occurrence gives no parameter; a line
  whose rest \<open>d\<close> after the first occurrence has a further occurrence gives no parameter;
  a line \<open>n -- d\<close> whose first occurrence is the one shown and whose rest \<open>d\<close> has none
  gives the parameter named \<open>n\<close>, trimmed, whose fields are all determined by \<open>d\<close>:
  \<open>paramType\<close> is \<open>form\<close> when \<open>d\<close> contains \<open>[paramType=form]\<close>, else \<open>body\<close> when it
  contains \<open>[paramType=body]\<close>, else unset, and every occurrence of the tag found is
  removed; \<open>required\<close> is true when the remaining text contains \<open>[required]\<close>, whose
  occurrences are removed, else unset; \<open>dataType\<close> is the second group of the match of
  \<open>.*(\[dataType=(.+)\]).*\<close> on the remaining text, whose first group is removed, else
  unset; the description is what remains, trimmed. When \<open>d\<close> has no bracket, that is
  \<open>d\<close>, trimmed. The match, the removal and the trimming are characterised by what
  they do to the text: the match is on the first line, exists exactly when that line
  has \<open>[dataType=\<close>, a non-empty text and \<open>]\<close> in this order, and takes the rightmost
  such start and the last \<open>]\<close>; the removal leaves a text without occurrence as it is
  and goes past the first occurrence; the trimming removes the white space of both ends.
\<close>

theorem param_from_line_one_separator:
  "(\<not> sublist '' -- '' line \<longrightarrow> param_from_line line = None)
   \<and> (line = n @ '' -- '' @ d \<and> \<not> sublist '' -- '' (n @ '' --'') \<and> \<not> sublist '' -- '' d
        \<longrightarrow> (\<exists>p. param_from_line line = Some p \<and> name p = str_strip n))
   \<and> (line = n @ '' -- '' @ d \<and> \<not> sublist '' -- '' (n @ '' --'') \<and> \<not> sublist '' -- '' d
        \<and> CHR ''['' \<notin> set d
        \<longrightarrow> param_from_line line
            = Some ((new_param (str_strip n))\<lparr>description := Some (PStr (str_strip d))\<rparr>))
   \<and> (line = n @ '' -- '' @ d \<and> \<not> sublist '' -- '' (n @ '' --'') \<and> sublist '' -- '' d
        \<longrightarrow> param_from_line line = None)
   \<and> (line = n @ '' -- '' @ d \<and> \<not> sublist '' -- '' (n @ '' --'') \<and> \<not> sublist '' -- '' d
        \<longrightarrow> param_from_line line =
            (let d1 = (if sublist ''[paramType=form]'' d then str_remove ''[paramType=form]'' d
                       else if sublist ''[paramType=body]'' d
                       then str_remove ''[paramType=body]'' d
                       else d);
                 d2 = (if sublist ''[required]'' d1 then str_remove ''[required]'' d1 else d1)
             in Some \<lparr>name = str_strip n,
                       dataType = (case data_type_match d2 of None \<Rightarrow> None
                                   | Some (g1, g2) \<Rightarrow> Some (PStr g2)),
                       paramType = (if sublist ''[paramType=form]'' d then Some (PStr ''form'')
                                    else if sublist ''[paramType=body]'' d
                                    then Some (PStr ''body'')
                                    else None),
                       required = (if sublist ''[required]'' d1 then Some (PBool True) else None),
                       description =
                         Some (PStr (str_strip (case data_type_match d2 of None \<Rightarrow> d2
                                                | Some (g1, g2) \<Rightarrow> str_remove g1 d2))),
                       allowableValues = None, defaultValue = None\<rparr>))
   \<and> (data_type_match s = None \<longleftrightarrow>
        \<not> (\<exists>a g b. takeWhile (\<lambda>c. c \<noteq> NL) s = a @ ''[dataType='' @ g @ '']'' @ b \<and> g \<noteq> []))
   \<and> (data_type_match s = Some (m1, m2) \<longrightarrow>
        m1 = ''[dataType='' @ m2 @ '']'' \<and> m2 \<noteq> []
        \<and> (\<exists>a b. takeWhile (\<lambda>c. c \<noteq> NL) s = a @ m1 @ b \<and> CHR '']'' \<notin> set b
               \<and> \<not> (\<exists>a' g' b'. tl (m1 @ b) = a' @ ''[dataType='' @ g' @ '']'' @ b'
                                 \<and> g' \<noteq> [])))
   \<and> (\<not> sublist old t \<longrightarrow> str_remove old t = t)
   \<and> (old \<noteq> [] \<and> \<not> sublist old (pre @ butlast old)
        \<longrightarrow> str_remove old (pre @ old @ post) = pre @ str_remove old post)
   \<and> (\<exists>a b. u = a @ str_strip u @ b \<and> (\<forall>c \<in> set a. is_space c) \<and> (\<forall>c \<in> set b. is_space c))
   \<and> (str_strip u \<noteq> [] \<longrightarrow> \<not> is_space (hd (str_strip u)) \<and> \<not> is_space (last (str_strip u)))
   \<and> (is_space ch \<longleftrightarrow> ch \<in> {CHR '' '', CHR 0x09, CHR 0x0A, CHR 0x0D, CHR 0x0B, CHR 0x0C})"
proof -
  have c1: "\<not> sublist '' -- '' line \<longrightarrow> param_from_line line = None"
  proof
    assume "\<not> sublist '' -- '' line"
    then have "str_split '' -- '' line = [line]"
      by (simp add: str_split_def split_acc_no_sep)
    then show "param_from_line line = None" by (simp add: param_from_line_def)
  qed
  have c2: "line = n @ '' -- '' @ d \<and> \<not> sublist '' -- '' (n @ '' --'') \<and> \<not> sublist '' -- '' d
        \<longrightarrow> (\<exists>p. param_from_line line = Some p \<and> name p = str_strip n)"
  proof
    assume "line = n @ '' -- '' @ d \<and> \<not> sublist '' -- '' (n @ '' --'') \<and> \<not> sublist '' -- '' d"
    then have "str_split '' -- '' line = [n, d]" using split_two by blast
    then show "\<exists>p. param_from_line line = Some p \<and> name p = str_strip n"
      by (rule param_from_line_name)
  qed
  have c3: "line = n @ '' -- '' @ d \<and> \<not> sublist '' -- '' (n @ '' --'') \<and> \<not> sublist '' -- '' d
        \<and> CHR ''['' \<notin> set d
        \<longrightarrow> param_from_line line
            = Some ((new_param (str_strip n))\<lparr>description := Some (PStr (str_strip d))\<rparr>)"
  proof
    assume "line = n @ '' -- '' @ d \<and> \<not> sublist '' -- '' (n @ '' --'') \<and> \<not> sublist '' -- '' d
          \<and> CHR ''['' \<notin> set d"
    then have "str_split '' -- '' line = [n, d]" and "CHR ''['' \<notin> set d"
      using split_two by blast+
    then show "param_from_line line
        = Some ((new_param (str_strip n))\<lparr>description := Some (PStr (str_strip d))\<rparr>)"
      by (rule param_from_line_plain)
  qed
  have c4: "line = n @ '' -- '' @ d \<and> \<not> sublist '' -- '' (n @ '' --'') \<and> sublist '' -- '' d
        \<longrightarrow> param_from_line line = None"
  proof
    assume "line = n @ '' -- '' @ d \<and> \<not> sublist '' -- '' (n @ '' --'') \<and> sublist '' -- '' d"
    then obtain x y z zs where "str_split '' -- '' line = x # y # z # zs"
      using split_three by blast
    then show "param_from_line line = None" by (simp add: param_from_line_def)
  qed
  have c5: "line = n @ '' -- '' @ d \<and> \<not> sublist '' -- '' (n @ '' --'') \<and> \<not> sublist '' -- '' d
        \<longrightarrow> param_from_line line =
            (let d1 = (if sublist ''[paramType=form]'' d then str_remove ''[paramType=form]'' d
                       else if sublist ''[paramType=body]'' d
                       then str_remove ''[paramType=body]'' d
                       else d);
                 d2 = (if sublist ''[required]'' d1 then str_remove ''[required]'' d1 else d1)
             in Some \<lparr>name = str_strip n,
                       dataType = (case data_type_match d2 of None \<Rightarrow> None
                                   | Some (g1, g2) \<Rightarrow> Some (PStr g2)),
                       paramType = (if sublist ''[paramType=form]'' d then Some (PStr ''form'')
                                    else if sublist ''[paramType=body]'' d
                                    then Some (PStr ''body'')
                                    else None),
                       required = (if sublist ''[required]'' d1 then Some (PBool True) else None),
                       description =
                         Some (PStr (str_strip (case data_type_match d2 of None \<Rightarrow> d2
                                                | Some (g1, g2) \<Rightarrow> str_remove g1 d2))),
                       allowableValues = None, defaultValue = None\<rparr>)"
  proof
    assume "line = n @ '' -- '' @ d \<and> \<not> sublist '' -- '' (n @ '' --'') \<and> \<not> sublist '' -- '' d"
    then have "str_split '' -- '' line = [n, d]" using split_two by blast
    then show "param_from_line line =
            (let d1 = (if sublist ''[paramType=form]'' d then str_remove ''[paramType=form]'' d
                       else if sublist ''[paramType=body]'' d
                       then str_remove ''[paramType=body]'' d
                       else d);
                 d2 = (if sublist ''[required]'' d1 then str_remove ''[required]'' d1 else d1)
             in Some \<lparr>name = str_strip n,
                       dataType = (case data_type_match d2 of None \<Rightarrow> None
                                   | Some (g1, g2) \<Rightarrow> Some (PStr g2)),
                       paramType = (if sublist ''[paramType=form]'' d then Some (PStr ''form'')
                                    else if sublist ''[paramType=body]'' d
                                    then Some (PStr ''body'')
                                    else None),
                       required = (if sublist ''[required]'' d1 then Some (PBool True) else None),
                       description =
                         Some (PStr (str_strip (case data_type_match d2 of None \<Rightarrow> d2
                                                | Some (g1, g2) \<Rightarrow> str_remove g1 d2))),
                       allowableValues = None, defaultValue = None\<rparr>)"
      by (rule param_from_line_record)
  qed
  note c6 = data_type_match_None [of s]
  have c7: "data_type_match s = Some (m1, m2) \<longrightarrow>
        m1 = ''[dataType='' @ m2 @ '']'' \<and> m2 \<noteq> []
        \<and> (\<exists>a b. takeWhile (\<lambda>c. c \<noteq> NL) s = a @ m1 @ b \<and> CHR '']'' \<notin> set b
               \<and> \<not> (\<exists>a' g' b'. tl (m1 @ b) = a' @ ''[dataType='' @ g' @ '']'' @ b'
                                 \<and> g' \<noteq> []))"
    using data_type_match_Some [of s m1 m2] by (rule impI)
  have c8: "\<not> sublist old t \<longrightarrow> str_remove old t = t"
    using str_remove_no_occurrence [of old t] by (rule impI)
  have c9: "old \<noteq> [] \<and> \<not> sublist old (pre @ butlast old)
        \<longrightarrow> str_remove old (pre @ old @ post) = pre @ str_remove old post"
    using str_remove_first [of old pre post] by blast
  note c10 = str_strip_decomposition [of u]
  have c11: "str_strip u \<noteq> [] \<longrightarrow> \<not> is_space (hd (str_strip u)) \<and> \<not> is_space (last (str_strip u))"
    using str_strip_ends [of u] by (rule impI)
  have c12: "is_space ch \<longleftrightarrow> ch \<in> {CHR '' '', CHR 0x09, CHR 0x0A, CHR 0x0D, CHR 0x0B, CHR 0x0C}"
    by (auto simp: is_space_def)
  show ?thesis
    apply (rule conjI [OF c1])
    apply (rule conjI [OF c2])
    apply (rule conjI [OF c3])
    apply (rule conjI [OF c4])
    apply (rule conjI [OF c5])
    apply (rule conjI [OF c6])
    apply (rule conjI [OF c7])
    apply (rule conjI [OF c8])
    apply (rule conjI [OF c9])
    apply (rule conjI [OF c10])
    apply (rule conjI [OF c11])
    apply (rule c12)
    done
qed

theorem param_from_line_one_separator_witness:
  "param_from_line ''no parameter here'' = None
   \<and> (\<exists>p. param_from_line ''  id -- the key [required]'' = Some p \<and> name p = ''id'')
   \<and> param_from_line ''q -- search text''
       = Some ((new_param ''q'')\<lparr>description := Some (PStr ''search text'')\<rparr>)
   \<and> param_from_line ''a -- b -- c'' = None
   \<and> param_from_line ''  id -- the key [required]''
       = Some \<lparr>name = ''id'', dataType = None, paramType = None, required = Some (PBool True),
               description = Some (PStr ''the key''),
               allowableValues = None, defaultValue = None\<rparr>
   \<and> param_from_line ''n -- count [paramType=form] [dataType=int] of items''
       = Some \<lparr>name = ''n'', dataType = Some (PStr ''int''), paramType = Some (PStr ''form''),
               required = None, description = Some (PStr ''count   of items''),
               allowableValues = None, defaultValue = None\<rparr>
   \<and> data_type_match ''x [dataType=int]'' \<noteq> None
   \<and> (\<exists>a b. takeWhile (\<lambda>c. c \<noteq> NL) ''x [dataType=int] y'' = a @ ''[dataType=int]'' @ b
          \<and> CHR '']'' \<notin> set b)
   \<and> str_remove ''[required]'' ''the key'' = ''the key''
   \<and> str_remove ''[required]'' (''a '' @ ''[required]'' @ '' b'')
       = ''a '' @ str_remove ''[required]'' '' b''
   \<and> (\<exists>a b. ''  id '' = a @ str_strip ''  id '' @ b \<and> filter (\<lambda>c. \<not> is_space c) (a @ b) = [])
   \<and> \<not> is_space (hd (str_strip ''  id '')) \<and> \<not> is_space (last (str_strip ''  id ''))
   \<and> is_space (CHR '' '')"
proof -
  have 1: "\<not> sublist '' -- '' ''no parameter here''"
    by (simp add: sublist_Cons_right)
  have 2: "''  id -- the key [required]'' = ''  id'' @ '' -- '' @ ''the key [required]''
           \<and> \<not> sublist '' -- '' (''  id'' @ '' --'') \<and> \<not> sublist '' -- '' ''the key [required]''"
    by (simp add: sublist_Cons_right)
  have 3: "''q -- search text'' = ''q'' @ '' -- '' @ ''search text''
           \<and> \<not> sublist '' -- '' (''q'' @ '' --'') \<and> \<not> sublist '' -- '' ''search text''
           \<and> CHR ''['' \<notin> set ''search text''"
    by (simp add: sublist_Cons_right)
  have 4: "''a -- b -- c'' = ''a'' @ '' -- '' @ ''b -- c''
           \<and> \<not> sublist '' -- '' (''a'' @ '' --'') \<and> sublist '' -- '' ''b -- c''"
    by (simp add: sublist_Cons_right)
  have 5: "''n -- count [paramType=form] [dataType=int] of items''
             = ''n'' @ '' -- '' @ ''count [paramType=form] [dataType=int] of items''
           \<and> \<not> sublist '' -- '' (''n'' @ '' --'')
           \<and> \<not> sublist '' -- '' ''count [paramType=form] [dataType=int] of items''"
    by (simp add: sublist_Cons_right)
  have s: "str_strip ''  id'' = ''id''" "str_strip ''q'' = ''q''"
    "str_strip ''search text'' = ''search text''"
    by (simp_all add: str_strip_def str_lstrip_def str_rstrip_def is_space_def)
  from 1 have a: "param_from_line ''no parameter here'' = None"
    by (rule param_from_line_one_separator [THEN conjunct1, THEN mp])
  from 2 have "\<exists>p. param_from_line ''  id -- the key [required]'' = Some p
            \<and> name p = str_strip ''  id''"
    by (rule param_from_line_one_separator [THEN conjunct2, THEN conjunct1, THEN mp])
  then have b: "\<exists>p. param_from_line ''  id -- the key [required]'' = Some p \<and> name p = ''id''"
    by (simp only: s)
  from 3 have "param_from_line ''q -- search text''
       = Some ((new_param (str_strip ''q''))\<lparr>description := Some (PStr (str_strip ''search text''))\<rparr>)"
    by (rule param_from_line_one_separator
        [THEN conjunct2, THEN conjunct2, THEN conjunct1, THEN mp])
  then have c: "param_from_line ''q -- search text''
       = Some ((new_param ''q'')\<lparr>description := Some (PStr ''search text'')\<rparr>)"
    by (simp only: s)
  from 4 have d: "param_from_line ''a -- b -- c'' = None"
    by (rule param_from_line_one_separator
        [THEN conjunct2, THEN conjunct2, THEN conjunct2, THEN conjunct1, THEN mp])
  note rec = param_from_line_one_separator
        [THEN conjunct2, THEN conjunct2, THEN conjunct2, THEN conjunct2, THEN conjunct1, THEN mp]
  have e: "param_from_line ''  id -- the key [required]''
       = Some \<lparr>name = ''id'', dataType = None, paramType = None, required = Some (PBool True),
               description = Some (PStr ''the key''),
               allowableValues = None, defaultValue = None\<rparr>"
    by (rule trans [OF rec [OF 2]]) code_simp
  have f: "param_from_line ''n -- count [paramType=form] [dataType=int] of items''
       = Some \<lparr>name = ''n'', dataType = Some (PStr ''int''), paramType = Some (PStr ''form''),
               required = None, description = Some (PStr ''count   of items''),
               allowableValues = None, defaultValue = None\<rparr>"
    by (rule trans [OF rec [OF 5]]) code_simp
  note tl5 = param_from_line_one_separator
        [THEN conjunct2, THEN conjunct2, THEN conjunct2, THEN conjunct2, THEN conjunct2]
  have "\<exists>a g b. takeWhile (\<lambda>c. c \<noteq> NL) ''x [dataType=int]''
                  = a @ ''[dataType='' @ g @ '']'' @ b \<and> g \<noteq> []"
    by (rule exI [of _ "''x ''"], rule exI [of _ "''int''"], rule exI [of _ "[]"]) simp
  with tl5 [THEN conjunct1, of "''x [dataType=int]''"]
  have g: "data_type_match ''x [dataType=int]'' \<noteq> None" by blast
  have m: "data_type_match ''x [dataType=int] y'' = Some (''[dataType=int]'', ''int'')"
    by code_simp
  from m have "''[dataType=int]'' = ''[dataType='' @ ''int'' @ '']'' \<and> ''int'' \<noteq> []
        \<and> (\<exists>a b. takeWhile (\<lambda>c. c \<noteq> NL) ''x [dataType=int] y'' = a @ ''[dataType=int]'' @ b
               \<and> CHR '']'' \<notin> set b
               \<and> \<not> (\<exists>a' g' b'. tl (''[dataType=int]'' @ b) = a' @ ''[dataType='' @ g' @ '']'' @ b'
                                 \<and> g' \<noteq> []))"
    by (rule tl5 [THEN conjunct2, THEN conjunct1, THEN mp])
  then have h: "\<exists>a b. takeWhile (\<lambda>c. c \<noteq> NL) ''x [dataType=int] y'' = a @ ''[dataType=int]'' @ b
          \<and> CHR '']'' \<notin> set b"
    by blast
  note tl7 = tl5 [THEN conjunct2, THEN conjunct2]
  have "\<not> sublist ''[required]'' ''the key''" by (simp add: sublist_Cons_right)
  then have i: "str_remove ''[required]'' ''the key'' = ''the key''"
    by (rule tl7 [THEN conjunct1, THEN mp])
  have "''[required]'' \<noteq> [] \<and> \<not> sublist ''[required]'' (''a '' @ butlast ''[required]'')"
    by (simp add: sublist_Cons_right)
  then have j: "str_remove ''[required]'' (''a '' @ ''[required]'' @ '' b'')
       = ''a '' @ str_remove ''[required]'' '' b''"
    by (rule tl7 [THEN conjunct2, THEN conjunct1, THEN mp])
  note tl9 = tl7 [THEN conjunct2, THEN conjunct2]
  from tl9 [THEN conjunct1, of "''  id ''"]
  obtain x y where xy: "''  id '' = x @ str_strip ''  id '' @ y"
     "\<forall>c \<in> set x. is_space c" "\<forall>c \<in> set y. is_space c"
    by blast
  from xy(2,3) have "filter (\<lambda>c. \<not> is_space c) (x @ y) = []"
    by (simp add: filter_empty_conv)
  with xy(1) have k: "\<exists>a b. ''  id '' = a @ str_strip ''  id '' @ b
      \<and> filter (\<lambda>c. \<not> is_space c) (a @ b) = []"
    by blast
  have "str_strip ''  id '' \<noteq> []"
    by (simp add: str_strip_def str_lstrip_def str_rstrip_def is_space_def)
  then have l: "\<not> is_space (hd (str_strip ''  id '')) \<and> \<not> is_space (last (str_strip ''  id ''))"
    by (rule tl9 [THEN conjunct2, THEN conjunct1, THEN mp])
  have "CHR '' '' \<in> {CHR '' '', CHR 0x09, CHR 0x0A, CHR 0x0D, CHR 0x0B, CHR 0x0C}" by simp
  then have n: "is_space (CHR '' '')"
    by (rule tl9 [THEN conjunct2, THEN conjunct2, THEN iffD2])
  from a b c d e f g h i j k l [THEN conjunct1] l [THEN conjunct2] n
  show ?thesis by (intro conjI)
qed

text \<open>
  C2 as the specification states it fails: the line \<open>a -- b -- c\<close> contains
  \<open>' -- '\<close> and yields no parameter.
\<close>

theorem param_from_line_two_separators_counterexample:
  "sublist '' -- '' ''a -- b -- c'' \<and> param_from_line ''a -- b -- c'' = None"
  by (simp add: sublist_Cons_right param_from_line_def str_split_def)

lemma map_filter_append:
  "List.map_filter f (xs @ ys) = List.map_filter f xs @ List.map_filter f ys"
  by (induction xs) (simp_all split: option.splits)

lemma map_filter_member:
  "x \<in> set xs \<Longrightarrow> f x = Some y \<Longrightarrow> y \<in> set (List.map_filter f xs)"
  by (induction xs) (auto split: option.splits)

lemma split_acc_char_append:
  "split_acc [c] acc (a @ c # b) = split_acc [c] acc a @ split_acc [c] [] b"
  by (induction a arbitrary: acc) auto

lemma str_split_lines_append:
  "str_split [NL] (a @ [NL] @ b) = str_split [NL] a @ str_split [NL] b"
  by (simp add: str_split_def split_acc_char_append)

lemma build_query_params_two_parts:
  "build_query_params_from_docstring mi =
     List.map_filter param_from_line
       (str_split [NL] (case retrieve_docstring mi of None \<Rightarrow> [] | Some d \<Rightarrow> d))
     @ List.map_filter param_from_line (str_split [NL] (view_description (callback mi)))"
  by (simp only: build_query_params_from_docstring_def docstring_with_description_def
      str_split_lines_append map_filter_append)

lemma tagged_line_required_first:
  "param_from_line ''foo -- bar [required][dataType=int]'' =
     Some ((new_param ''foo'')\<lparr>dataType := Some (PStr ''int''), required := Some (PBool True),
                              description := Some (PStr ''bar'')\<rparr>)"
  by (simp add: param_from_line_def param_type_tag_def required_tag_def data_type_tag_def
      str_split_def new_param_def sublist_Cons_right data_type_match_def data_type_here_def
      before_last_def str_strip_def str_rstrip_def str_lstrip_def is_space_def)

lemma tagged_line_data_type_first:
  "param_from_line ''foo -- bar [dataType=int][required]'' =
     Some ((new_param ''foo'')\<lparr>dataType := Some (PStr ''int''), required := Some (PBool True),
                              description := Some (PStr ''bar'')\<rparr>)"
  by (simp add: param_from_line_def param_type_tag_def required_tag_def data_type_tag_def
      str_split_def new_param_def sublist_Cons_right data_type_match_def data_type_here_def
      before_last_def str_strip_def str_rstrip_def str_lstrip_def is_space_def)

text \<open>
  C3. When the docstring of the method contains the line
  \<open>foo -- bar [required][dataType=int]\<close>, or that line with its two tags in the other
  order, the line gives the parameter named \<open>foo\<close> with \<open>required\<close> true,
  \<open>dataType\<close> \<open>int\<close> and description \<open>bar\<close>, no tag left in the description, and
  that parameter is among the parameters extracted from the docstring.
\<close>

theorem tagged_line_parameter:
  assumes "retrieve_docstring mi = Some doc"
    and "l \<in> set (str_split [NL] doc)"
    and "l = ''foo -- bar [required][dataType=int]'' \<or> l = ''foo -- bar [dataType=int][required]''"
  shows "param_from_line l =
           Some \<lparr>name = ''foo'', dataType = Some (PStr ''int''), paramType = None,
                 required = Some (PBool True), description = Some (PStr ''bar''),
                 allowableValues = None, defaultValue = None\<rparr>
         \<and> \<lparr>name = ''foo'', dataType = Some (PStr ''int''), paramType = None,
             required = Some (PBool True), description = Some (PStr ''bar''),
             allowableValues = None, defaultValue = None\<rparr>
           \<in> set (build_query_params_from_docstring mi)"
proof -
  let ?p = "\<lparr>name = ''foo'', dataType = Some (PStr ''int''), paramType = None,
             required = Some (PBool True), description = Some (PStr ''bar''),
             allowableValues = None, defaultValue = None\<rparr>"
  have p: "param_from_line l = Some ?p"
    using assms(3) tagged_line_required_first tagged_line_data_type_first
    by (auto simp: new_param_def)
  from assms(2) p have "?p \<in> set (List.map_filter param_from_line (str_split [NL] doc))"
    by (rule map_filter_member)
  then have "?p \<in> set (build_query_params_from_docstring mi)"
    by (simp add: build_query_params_two_parts assms(1))
  with p show ?thesis by simp
qed

theorem tagged_line_parameter_witness:
  "retrieve_docstring (APIViewMethodIntrospector ''/items/'' example_view ''GET'')
     = Some (''Return items.'' @ NL # ''foo -- bar [dataType=int][required]'')
   \<and> ''foo -- bar [dataType=int][required]''
       \<in> set (str_split [NL] (''Return items.'' @ NL # ''foo -- bar [dataType=int][required]''))
   \<and> \<lparr>name = ''foo'', dataType = Some (PStr ''int''), paramType = None,
       required = Some (PBool True), description = Some (PStr ''bar''),
       allowableValues = None, defaultValue = None\<rparr>
     \<in> set (build_query_params_from_docstring
               (APIViewMethodIntrospector ''/items/'' example_view ''GET''))"
proof -
  let ?mi = "APIViewMethodIntrospector ''/items/'' example_view ''GET''"
  let ?doc = "''Return items.'' @ NL # ''foo -- bar [dataType=int][required]''"
  have low: "str_lower ''GET'' = ''get''" by code_simp
  have a: "retrieve_docstring ?mi = Some ?doc"
    by (simp add: retrieve_docstring_def APIViewMethodIntrospector_def example_view_def low)
  have b: "''foo -- bar [dataType=int][required]'' \<in> set (str_split [NL] ?doc)"
    by (simp add: str_split_def)
  from tagged_line_parameter [OF a b] a b show ?thesis by blast
qed

text \<open>
  C10. The lines scanned for inline parameters are those of the docstring of the method
  followed by those of the description of the view class: a parameter line of the class
  description gives a parameter of every method of the view, whatever the docstring of
  the method holds.
\<close>

theorem class_description_parameters:
  assumes "l \<in> set (str_split [NL] (view_description (callback mi)))"
    and "param_from_line l = Some p"
  shows "p \<in> set (build_query_params_from_docstring mi)
         \<and> build_query_params_from_docstring mi =
             List.map_filter param_from_line
               (str_split [NL] (case retrieve_docstring mi of None \<Rightarrow> [] | Some d \<Rightarrow> d))
             @ List.map_filter param_from_line (str_split [NL] (view_description (callback mi)))"
proof -
  from assms have "p \<in> set (List.map_filter param_from_line
                              (str_split [NL] (view_description (callback mi))))"
    by (rule map_filter_member)
  then show ?thesis by (simp add: build_query_params_two_parts)
qed

theorem class_description_parameters_witness:
  "''page -- page number''
     \<in> set (str_split [NL] (view_description
              (callback (APIViewMethodIntrospector ''/items/'' example_view ''POST''))))
   \<and> param_from_line ''page -- page number''
       = Some ((new_param ''page'')\<lparr>description := Some (PStr ''page number'')\<rparr>)
   \<and> retrieve_docstring (APIViewMethodIntrospector ''/items/'' example_view ''POST'') = None
   \<and> build_query_params_from_docstring (APIViewMethodIntrospector ''/items/'' example_view ''POST'')
       = [(new_param ''page'')\<lparr>description := Some (PStr ''page number'')\<rparr>]"
proof -
  let ?mi = "APIViewMethodIntrospector ''/items/'' example_view ''POST''"
  let ?p = "(new_param ''page'')\<lparr>description := Some (PStr ''page number'')\<rparr>"
  have a: "''page -- page number'' \<in> set (str_split [NL] (view_description (callback ?mi)))"
    by (simp add: APIViewMethodIntrospector_def example_view_def str_split_def)
  have b: "param_from_line ''page -- page number'' = Some ?p"
    by (simp add: param_from_line_def param_type_tag_def required_tag_def data_type_tag_def
        str_split_def new_param_def sublist_Cons_right data_type_match_def data_type_here_def
        str_strip_def str_rstrip_def str_lstrip_def is_space_def)
  have low: "str_lower ''POST'' = ''post''" by code_simp
  have c: "retrieve_docstring ?mi = None"
    by (simp add: retrieve_docstring_def APIViewMethodIntrospector_def example_view_def low)
  have d: "List.map_filter param_from_line (str_split [NL] (view_description (callback ?mi))) = [?p]"
    using b
    by (simp add: APIViewMethodIntrospector_def example_view_def str_split_def
        param_from_line_def)
  from class_description_parameters [OF a b]
  have "build_query_params_from_docstring ?mi =
          List.map_filter param_from_line
            (str_split [NL] (case retrieve_docstring ?mi of None \<Rightarrow> [] | Some d \<Rightarrow> d))
          @ List.map_filter param_from_line (str_split [NL] (view_description (callback ?mi)))"
    by (rule conjunct2)
  then have "build_query_params_from_docstring ?mi = [?p]"
    unfolding c d by (simp add: str_split_def param_from_line_def)
  with a b c show ?thesis by blast
qed

section \<open>Properties of the path parameters\<close>

lemma findall_no_slash_brace:
  "\<not> sublist ''/{'' s \<Longrightarrow> findall_path_tokens s = []"
proof (induction s)
  case Nil
  then show ?case by simp
next
  case (Cons c cs)
  from Cons.prems have a: "\<not> prefix ''/{'' (c # cs)" and b: "\<not> sublist ''/{'' cs"
    by (simp_all add: sublist_Cons_right)
  from a have "\<not> (c = CHR ''/'' \<and> prefix ''{'' cs)" by auto
  with Cons.IH [OF b] show ?case by auto
qed

lemma findall_at_token:
  assumes "CHR ''}'' \<notin> set t"
  shows "findall_path_tokens (''/{'' @ t @ ''}'' @ rest) = t # findall_path_tokens rest"
proof -
  have tw: "takeWhile (\<lambda>x. x \<noteq> CHR ''}'') (t @ CHR ''}'' # rest) = t"
    using assms by (induction t) auto
  have dw: "dropWhile (\<lambda>x. x \<noteq> CHR ''}'') (t @ CHR ''}'' # rest) = CHR ''}'' # rest"
    using assms by (induction t) auto
  show ?thesis by (simp add: tw dw)
qed

lemma findall_skip_separator:
  assumes "CHR ''}'' \<notin> set t"
  shows "\<not> sublist ''/{'' s \<Longrightarrow>
         findall_path_tokens (s @ ''/{'' @ t @ ''}'' @ rest) = t # findall_path_tokens rest"
proof (induction s)
  case Nil
  from findall_at_token [OF assms] show ?case by simp
next
  case (Cons c cs)
  from Cons.prems have a: "\<not> prefix ''/{'' (c # cs)" and b: "\<not> sublist ''/{'' cs"
    by (simp_all add: sublist_Cons_right)
  have n: "\<not> (c = CHR ''/'' \<and> prefix ''{'' (cs @ ''/{'' @ t @ ''}'' @ rest))"
  proof
    assume h: "c = CHR ''/'' \<and> prefix ''{'' (cs @ ''/{'' @ t @ ''}'' @ rest)"
    show False
    proof (cases cs)
      case Nil
      with h show False by simp
    next
      case (Cons d ds)
      with h a show False by simp
    qed
  qed
  have "findall_path_tokens ((c # cs) @ ''/{'' @ t @ ''}'' @ rest)
          = findall_path_tokens (cs @ ''/{'' @ t @ ''}'' @ rest)"
    using n by auto
  with Cons.IH [OF b] show ?case by (simp only:)
qed

lemma findall_path_with_tokens:
  assumes "\<forall>(s, t) \<in> set segs. \<not> sublist ''/{'' s \<and> CHR ''}'' \<notin> set t"
    and "\<not> sublist ''/{'' rest"
  shows "findall_path_tokens (path_with_tokens segs rest) = map snd segs"
  using assms(1)
proof (induction segs)
  case Nil
  from assms(2) show ?case by (simp add: findall_no_slash_brace)
next
  case (Cons st segs)
  obtain s t where st: "st = (s, t)" by (cases st)
  from Cons.prems st have s: "\<not> sublist ''/{'' s" and t: "CHR ''}'' \<notin> set t"
    and rest: "\<forall>(s, t) \<in> set segs. \<not> sublist ''/{'' s \<and> CHR ''}'' \<notin> set t"
    by simp_all
  from findall_skip_separator [OF t s] Cons.IH [OF rest] st show ?case by simp
qed

text \<open>
  C4 (as the code has it). Path-parameter extraction yields one parameter for each
  \<open>{token}\<close> group whose opening brace follows a slash at once, the token running to
  the next closing brace, each with dataType \<open>string\<close>, paramType \<open>path\<close> and
  \<open>required\<close> true, in left-to-right order; text without \<open>/{\<close>, also a
  \<open>{token}\<close> group that no slash precedes, yields nothing. For
  \<open>/users/{id}/posts/{post_id}\<close> the result is the two parameters \<open>id\<close> and
  \<open>post_id\<close>, in that order.
\<close>

theorem path_parameters_after_slash:
  assumes "path mi = path_with_tokens segs rest"
    and "\<forall>(s, t) \<in> set segs. \<not> sublist ''/{'' s \<and> CHR ''}'' \<notin> set t"
    and "\<not> sublist ''/{'' rest"
  shows "build_path_parameters mi =
           map (\<lambda>(s, t). \<lparr>name = t, dataType = Some (PStr ''string''),
                           paramType = Some (PStr ''path''), required = Some (PBool True),
                           description = None, allowableValues = None, defaultValue = None\<rparr>)
               segs"
proof -
  have "findall_path_tokens (path mi) = map snd segs"
    unfolding assms(1) using assms(2,3) by (rule findall_path_with_tokens)
  then show ?thesis
    by (simp add: build_path_parameters_def path_param_def new_param_def case_prod_beta)
qed

theorem path_parameters_after_slash_witness:
  "path (APIViewMethodIntrospector ''/users/{id}/posts/{post_id}'' example_view ''GET'')
     = path_with_tokens [(''/users'', ''id''), (''/posts'', ''post_id'')] []
   \<and> \<not> sublist ''/{'' ''/users'' \<and> CHR ''}'' \<notin> set ''id''
   \<and> \<not> sublist ''/{'' ''/posts'' \<and> CHR ''}'' \<notin> set ''post_id''
   \<and> \<not> sublist ''/{'' []
   \<and> build_path_parameters
        (APIViewMethodIntrospector ''/users/{id}/posts/{post_id}'' example_view ''GET'')
       = [\<lparr>name = ''id'', dataType = Some (PStr ''string''),
            paramType = Some (PStr ''path''), required = Some (PBool True),
            description = None, allowableValues = None, defaultValue = None\<rparr>,
          \<lparr>name = ''post_id'', dataType = Some (PStr ''string''),
            paramType = Some (PStr ''path''), required = Some (PBool True),
            description = None, allowableValues = None, defaultValue = None\<rparr>]"
proof -
  let ?mi = "APIViewMethodIntrospector ''/users/{id}/posts/{post_id}'' example_view ''GET''"
  let ?segs = "[(''/users'', ''id''), (''/posts'', ''post_id'')]"
  have a: "path ?mi = path_with_tokens ?segs []"
    by (simp add: APIViewMethodIntrospector_def)
  have b: "\<forall>(s, t) \<in> set ?segs. \<not> sublist ''/{'' s \<and> CHR ''}'' \<notin> set t"
    by (simp add: sublist_Cons_right)
  have c: "\<not> sublist ''/{'' []" by simp
  have d: "\<not> sublist ''/{'' ''/users'' \<and> CHR ''}'' \<notin> set ''id''
           \<and> \<not> sublist ''/{'' ''/posts'' \<and> CHR ''}'' \<notin> set ''post_id''"
    by (simp add: sublist_Cons_right)
  from path_parameters_after_slash [OF a b c] a c d show ?thesis by simp
qed

text \<open>
  C4 as the specification states it fails: \<open>/files/{name}.{ext}\<close> has two
  \<open>{token}\<close> groups and yields one parameter.
\<close>

theorem path_parameters_every_brace_counterexample:
  "brace_tokens ''/files/{name}.{ext}'' = [''name'', ''ext'']
   \<and> map name (build_path_parameters
                  (APIViewMethodIntrospector ''/files/{name}.{ext}'' example_view ''GET''))
       = [''name'']"
  by (simp add: build_path_parameters_def APIViewMethodIntrospector_def path_param_def
      new_param_def)

section \<open>Properties of the parameter merge\<close>

lemma params_map_from_notin:
  "k \<notin> name ` set ps \<Longrightarrow> params_map_from i ps m k = m k"
  by (induction ps arbitrary: i m) auto

lemma params_map_from_in:
  "k \<in> name ` set ps \<Longrightarrow>
     \<exists>j < length ps. params_map_from i ps m k = Some (i + j) \<and> name (ps ! j) = k
        \<and> (\<forall>j'. j < j' \<and> j' < length ps \<longrightarrow> name (ps ! j') \<noteq> k)"
proof (induction ps arbitrary: i m)
  case Nil
  then show ?case by simp
next
  case (Cons p ps)
  show ?case
  proof (cases "k \<in> name ` set ps")
    case True
    from Cons.IH [OF True, of "Suc i" "m(name p \<mapsto> i)"] obtain j where
      j: "j < length ps" "params_map_from (Suc i) ps (m(name p \<mapsto> i)) k = Some (Suc i + j)"
         "name (ps ! j) = k" "\<forall>j'. j < j' \<and> j' < length ps \<longrightarrow> name (ps ! j') \<noteq> k"
      by blast
    have later: "\<forall>j'. Suc j < j' \<and> j' < length (p # ps) \<longrightarrow> name ((p # ps) ! j') \<noteq> k"
    proof (intro allI impI)
      fix j' assume h: "Suc j < j' \<and> j' < length (p # ps)"
      then obtain j'' where j'': "j' = Suc j''" by (cases j') auto
      with h j(4) show "name ((p # ps) ! j') \<noteq> k" by simp
    qed
    from j later have "Suc j < length (p # ps) \<and> params_map_from i (p # ps) m k = Some (i + Suc j)
        \<and> name ((p # ps) ! Suc j) = k
        \<and> (\<forall>j'. Suc j < j' \<and> j' < length (p # ps) \<longrightarrow> name ((p # ps) ! j') \<noteq> k)"
      by simp
    then show ?thesis by blast
  next
    case False
    with Cons.prems have kp: "k = name p" by auto
    from False have "params_map_from (Suc i) ps (m(name p \<mapsto> i)) k = (m(name p \<mapsto> i)) k"
      by (rule params_map_from_notin)
    with kp have a: "params_map_from i (p # ps) m k = Some (i + 0)" by simp
    have later: "\<forall>j'. 0 < j' \<and> j' < length (p # ps) \<longrightarrow> name ((p # ps) ! j') \<noteq> k"
    proof (intro allI impI)
      fix j' assume h: "0 < j' \<and> j' < length (p # ps)"
      then obtain j'' where j'': "j' = Suc j''" by (cases j') auto
      with h have "ps ! j'' \<in> set ps" by simp
      with False have "name (ps ! j'') \<noteq> k" by blast
      with j'' show "name ((p # ps) ! j') \<noteq> k" by simp
    qed
    from a kp later have "0 < length (p # ps) \<and> params_map_from i (p # ps) m k = Some (i + 0)
        \<and> name ((p # ps) ! 0) = k
        \<and> (\<forall>j'. 0 < j' \<and> j' < length (p # ps) \<longrightarrow> name ((p # ps) ! j') \<noteq> k)"
      by simp
    then show ?thesis by blast
  qed
qed

lemma params_map_None: "params_map ps k = None \<longleftrightarrow> k \<notin> name ` set ps"
proof
  assume "params_map ps k = None"
  show "k \<notin> name ` set ps"
  proof
    assume "k \<in> name ` set ps"
    from params_map_from_in [OF this, of 0 Map.empty] \<open>params_map ps k = None\<close>
    show False by (auto simp: params_map_def)
  qed
next
  assume "k \<notin> name ` set ps"
  then show "params_map ps k = None" by (simp add: params_map_def params_map_from_notin)
qed

lemma params_map_Some:
  assumes "params_map ps k = Some i"
  shows "i < length ps \<and> name (ps ! i) = k
         \<and> (\<forall>j. i < j \<and> j < length ps \<longrightarrow> name (ps ! j) \<noteq> k)"
proof -
  from assms have "k \<in> name ` set ps"
    using params_map_None [of ps k] by auto
  from params_map_from_in [OF this, of 0 Map.empty] assms show ?thesis
    by (auto simp: params_map_def)
qed

lemma param_names [simp]:
  "name (new_param n) = n" "name (path_param n) = n" "name (form_param n f) = n"
  by (simp_all add: new_param_def path_param_def form_param_def Let_def)

lemma dict_update_name [simp]: "name (dict_update p d) = name d"
  by (simp add: dict_update_def)

lemma merge_append:
  "merge_docstring_params pm cur (xs @ ys)
     = merge_docstring_params pm (merge_docstring_params pm cur xs) ys"
  by (induction xs arbitrary: cur) (simp_all split: option.splits)

lemma merge_loop_invariant:
  assumes pm: "\<And>k i. pm k = Some i \<Longrightarrow> i < length names0 \<and> names0 ! i = k"
  shows "length names0 \<le> length cur \<Longrightarrow> map name (take (length names0) cur) = names0 \<Longrightarrow>
         map name (take (length names0) (merge_docstring_params pm cur docs)) = names0
         \<and> drop (length names0) (merge_docstring_params pm cur docs)
             = drop (length names0) cur @ map set_defaults (filter (\<lambda>d. pm (name d) = None) docs)"
proof (induction docs arbitrary: cur)
  case Nil
  then show ?case by simp
next
  case (Cons d docs)
  show ?case
  proof (cases "pm (name d)")
    case None
    let ?cur = "cur @ [set_defaults d]"
    have a: "length names0 \<le> length ?cur" using Cons.prems(1) by simp
    have b: "map name (take (length names0) ?cur) = names0"
      using Cons.prems by simp
    from Cons.IH [OF a b] None Cons.prems(1) show ?thesis by simp
  next
    case (Some i)
    from pm [OF Some] have i: "i < length names0" and ni: "names0 ! i = name d" by simp_all
    let ?cur = "cur[i := dict_update (cur ! i) d]"
    have a: "length names0 \<le> length ?cur" using Cons.prems(1) by simp
    have "map name (take (length names0) ?cur) = (map name (take (length names0) cur))[i := name d]"
      by (simp add: take_update_swap map_update)
    also have "\<dots> = names0[i := names0 ! i]" using Cons.prems(2) ni by simp
    also have "\<dots> = names0" by simp
    finally have b: "map name (take (length names0) ?cur) = names0" .
    have c: "drop (length names0) ?cur = drop (length names0) cur"
      using i by simp
    from Cons.IH [OF a b] Some c show ?thesis by simp
  qed
qed

lemma merge_whole_loop:
  "map name (take (length params) (merge_docstring_params (params_map params) params docs))
     = map name params
   \<and> drop (length params) (merge_docstring_params (params_map params) params docs)
       = map set_defaults (filter (\<lambda>d. name d \<notin> name ` set params) docs)"
proof -
  have pm: "\<And>k i. params_map params k = Some i
              \<Longrightarrow> i < length (map name params) \<and> map name params ! i = k"
    using params_map_Some by fastforce
  from merge_loop_invariant [of "params_map params" "map name params" params docs, OF pm]
  show ?thesis by (simp add: params_map_None)
qed

lemma params_map_Some_iff:
  "params_map ps k = Some i \<longleftrightarrow>
     i < length ps \<and> name (ps ! i) = k
     \<and> (\<forall>j. i < j \<and> j < length ps \<longrightarrow> name (ps ! j) \<noteq> k)"
proof
  assume "params_map ps k = Some i"
  then show "i < length ps \<and> name (ps ! i) = k
     \<and> (\<forall>j. i < j \<and> j < length ps \<longrightarrow> name (ps ! j) \<noteq> k)"
    by (rule params_map_Some)
next
  assume h: "i < length ps \<and> name (ps ! i) = k
     \<and> (\<forall>j. i < j \<and> j < length ps \<longrightarrow> name (ps ! j) \<noteq> k)"
  then have "k \<in> name ` set ps" by (metis imageI nth_mem)
  then obtain i' where i': "params_map ps k = Some i'"
    using params_map_None [of ps k] by auto
  from params_map_Some [OF i'] have l: "i' < length ps" "name (ps ! i') = k"
    "\<forall>j. i' < j \<and> j < length ps \<longrightarrow> name (ps ! j) \<noteq> k"
    by simp_all
  have "\<not> i < i'" using h l(1,2) by blast
  moreover have "\<not> i' < i" using h l(3) by blast
  ultimately have "i' = i" by simp
  with i' show "params_map ps k = Some i" by simp
qed

lemma merge_length_ge:
  "length cur \<le> length (merge_docstring_params pm cur docs)"
proof (induction docs arbitrary: cur)
  case Nil
  show ?case by simp
next
  case (Cons d docs)
  show ?case
  proof (cases "pm (name d)")
    case None
    from Cons.IH [of "cur @ [set_defaults d]"] None show ?thesis by simp
  next
    case (Some i)
    from Cons.IH [of "cur[i := dict_update (cur ! i) d]"] Some show ?thesis by simp
  qed
qed

lemma merge_loop_elements:
  assumes pm: "\<And>k j. pm k = Some j \<Longrightarrow> j < n"
  shows "n \<le> length cur \<Longrightarrow> i < n \<Longrightarrow>
         merge_docstring_params pm cur docs ! i
           = foldl dict_update (cur ! i) (filter (\<lambda>d. pm (name d) = Some i) docs)"
proof (induction docs arbitrary: cur)
  case Nil
  show ?case by simp
next
  case (Cons d docs)
  show ?case
  proof (cases "pm (name d)")
    case None
    have a: "n \<le> length (cur @ [set_defaults d])" using Cons.prems(1) by simp
    have "(cur @ [set_defaults d]) ! i = cur ! i"
      using Cons.prems by (simp add: nth_append)
    with Cons.IH [OF a Cons.prems(2)] None show ?thesis by simp
  next
    case (Some j)
    from pm [OF Some] have j: "j < n" .
    let ?cur = "cur[j := dict_update (cur ! j) d]"
    have a: "n \<le> length ?cur" using Cons.prems(1) by simp
    have e: "?cur ! i = (if i = j then dict_update (cur ! i) d else cur ! i)"
      using Cons.prems j by (simp add: nth_list_update)
    from Cons.IH [OF a Cons.prems(2)] Some e show ?thesis by auto
  qed
qed

lemma merge_elements:
  assumes "i < length params"
  shows "merge_docstring_params (params_map params) params docs ! i
           = foldl dict_update (params ! i)
               (filter (\<lambda>d. name d = name (params ! i)
                            \<and> (\<forall>j. i < j \<and> j < length params
                                   \<longrightarrow> name (params ! j) \<noteq> name d)) docs)"
proof -
  have pm: "\<And>k j. params_map params k = Some j \<Longrightarrow> j < length params"
    using params_map_Some by blast
  have f: "(\<lambda>d. params_map params (name d) = Some i)
           = (\<lambda>d. name d = name (params ! i)
                   \<and> (\<forall>j. i < j \<and> j < length params \<longrightarrow> name (params ! j) \<noteq> name d))"
    using assms by (auto simp: params_map_Some_iff)
  from merge_loop_elements [of "params_map params" "length params" params i docs, OF pm] assms
  show ?thesis by (simp add: f)
qed

lemma merge_step_in_context:
  assumes "name d \<in> name ` set params"
  shows "\<exists>i < length params.
           name (params ! i) = name d
           \<and> (\<forall>j. i < j \<and> j < length params \<longrightarrow> name (params ! j) \<noteq> name d)
           \<and> merge_docstring_params (params_map params) params (before @ [d])
               = (merge_docstring_params (params_map params) params before)
                   [i := dict_update (merge_docstring_params (params_map params) params before ! i) d]"
proof -
  from assms obtain i where pm: "params_map params (name d) = Some i"
    using params_map_None [of params "name d"] by auto
  from params_map_Some [OF pm] have i: "i < length params" "name (params ! i) = name d"
    "\<forall>j. i < j \<and> j < length params \<longrightarrow> name (params ! j) \<noteq> name d"
    by simp_all
  have "merge_docstring_params (params_map params) params (before @ [d])
          = (merge_docstring_params (params_map params) params before)
              [i := dict_update (merge_docstring_params (params_map params) params before ! i) d]"
    using pm by (simp add: merge_append)
  with i show ?thesis by blast
qed

lemma dict_update_fields:
  "name (dict_update p q) = name q"
  "dataType (dict_update p q) = (case dataType q of None \<Rightarrow> dataType p | Some v \<Rightarrow> Some v)"
  "paramType (dict_update p q) = (case paramType q of None \<Rightarrow> paramType p | Some v \<Rightarrow> Some v)"
  "required (dict_update p q) = (case required q of None \<Rightarrow> required p | Some v \<Rightarrow> Some v)"
  "description (dict_update p q)
     = (case description q of None \<Rightarrow> description p | Some v \<Rightarrow> Some v)"
  "allowableValues (dict_update p q)
     = (case allowableValues q of None \<Rightarrow> allowableValues p | Some v \<Rightarrow> Some v)"
  "defaultValue (dict_update p q)
     = (case defaultValue q of None \<Rightarrow> defaultValue p | Some v \<Rightarrow> Some v)"
  by (simp_all add: dict_update_def override_def)

lemma merge_length:
  "length (merge_docstring_params (params_map params) params docs)
     = length params + length (filter (\<lambda>d. name d \<notin> name ` set params) docs)"
proof -
  let ?r = "merge_docstring_params (params_map params) params docs"
  have "length params \<le> length ?r" by (rule merge_length_ge)
  then have "length ?r = length params + length (drop (length params) ?r)" by simp
  also have "drop (length params) ?r
               = map set_defaults (filter (\<lambda>d. name d \<notin> name ` set params) docs)"
    using merge_whole_loop [of params docs] by (rule conjunct2)
  finally show ?thesis by simp
qed

lemma merge_update_at_last:
  assumes "name d \<in> name ` set params"
  shows "\<exists>i < length params.
            name (params ! i) = name d
            \<and> (\<forall>j. i < j \<and> j < length params \<longrightarrow> name (params ! j) \<noteq> name d)
            \<and> merge_docstring_params (params_map params) params (before @ [d])
                = (merge_docstring_params (params_map params) params before)
                    [i := dict_update
                            (merge_docstring_params (params_map params) params before ! i) d]
            \<and> merge_docstring_params (params_map params) params [d]
                = params[i := dict_update (params ! i) d]
            \<and> length (merge_docstring_params (params_map params) params [d]) = length params
            \<and> name (dict_update (params ! i) d) = name (params ! i)
            \<and> dataType (dict_update (params ! i) d)
                = (case dataType d of None \<Rightarrow> dataType (params ! i) | Some v \<Rightarrow> Some v)
            \<and> paramType (dict_update (params ! i) d)
                = (case paramType d of None \<Rightarrow> paramType (params ! i) | Some v \<Rightarrow> Some v)
            \<and> required (dict_update (params ! i) d)
                = (case required d of None \<Rightarrow> required (params ! i) | Some v \<Rightarrow> Some v)
            \<and> description (dict_update (params ! i) d)
                = (case description d of None \<Rightarrow> description (params ! i) | Some v \<Rightarrow> Some v)
            \<and> allowableValues (dict_update (params ! i) d)
                = (case allowableValues d of None \<Rightarrow> allowableValues (params ! i) | Some v \<Rightarrow> Some v)
            \<and> defaultValue (dict_update (params ! i) d)
                = (case defaultValue d of None \<Rightarrow> defaultValue (params ! i) | Some v \<Rightarrow> Some v)"
proof -
  from assms obtain i where pm: "params_map params (name d) = Some i"
    using params_map_None [of params "name d"] by auto
  from params_map_Some [OF pm] have i: "i < length params" and n: "name (params ! i) = name d"
    and l: "\<forall>j. i < j \<and> j < length params \<longrightarrow> name (params ! j) \<noteq> name d"
    by simp_all
  have c: "merge_docstring_params (params_map params) params (before @ [d])
          = (merge_docstring_params (params_map params) params before)
              [i := dict_update (merge_docstring_params (params_map params) params before ! i) d]"
    using pm by (simp add: merge_append)
  have m: "merge_docstring_params (params_map params) params [d]
             = params[i := dict_update (params ! i) d]"
    using pm by simp
  have len: "length (merge_docstring_params (params_map params) params [d]) = length params"
    unfolding m by simp
  have nn: "name (dict_update (params ! i) d) = name (params ! i)" using n by simp
  note f = dict_update_fields(2-7) [of "params ! i" d]
  from i n l c m len nn f show ?thesis by blast
qed

text \<open>
  C5. When the name of a docstring parameter \<open>d\<close> is the name of a parameter of the
  list built from the path, the form and the body, the loop, at the turn of \<open>d\<close>,
  updates the parameter of that name where it stands (the last one, should several
  share the name) and changes nothing else: the list keeps its length, so nothing is
  appended; the name stays; each field that \<open>d\<close> sets takes the value of \<open>d\<close>, each
  field that \<open>d\<close> does not set keeps its value. Over the whole loop the parameter at
  each of the first positions is the original one updated, in docstring order, by
  every docstring parameter that resolves to it; the names of the first parameters and
  their order do not change; the parameters appended are the docstring parameters of
  unknown names, with their defaults.
\<close>

theorem docstring_param_updates_in_place:
  "(name d \<in> name ` set params \<longrightarrow>
      (\<exists>i < length params.
            name (params ! i) = name d
            \<and> (\<forall>j. i < j \<and> j < length params \<longrightarrow> name (params ! j) \<noteq> name d)
            \<and> merge_docstring_params (params_map params) params (before @ [d])
                = (merge_docstring_params (params_map params) params before)
                    [i := dict_update
                            (merge_docstring_params (params_map params) params before ! i) d]
            \<and> merge_docstring_params (params_map params) params [d]
                = params[i := dict_update (params ! i) d]
            \<and> length (merge_docstring_params (params_map params) params [d]) = length params
            \<and> name (dict_update (params ! i) d) = name (params ! i)
            \<and> dataType (dict_update (params ! i) d)
                = (case dataType d of None \<Rightarrow> dataType (params ! i) | Some v \<Rightarrow> Some v)
            \<and> paramType (dict_update (params ! i) d)
                = (case paramType d of None \<Rightarrow> paramType (params ! i) | Some v \<Rightarrow> Some v)
            \<and> required (dict_update (params ! i) d)
                = (case required d of None \<Rightarrow> required (params ! i) | Some v \<Rightarrow> Some v)
            \<and> description (dict_update (params ! i) d)
                = (case description d of None \<Rightarrow> description (params ! i) | Some v \<Rightarrow> Some v)
            \<and> allowableValues (dict_update (params ! i) d)
                = (case allowableValues d of None \<Rightarrow> allowableValues (params ! i) | Some v \<Rightarrow> Some v)
            \<and> defaultValue (dict_update (params ! i) d)
                = (case defaultValue d of None \<Rightarrow> defaultValue (params ! i) | Some v \<Rightarrow> Some v)))
   \<and> (\<forall>i < length params.
         merge_docstring_params (params_map params) params docs ! i
           = foldl dict_update (params ! i)
               (filter (\<lambda>d. name d = name (params ! i)
                            \<and> (\<forall>j. i < j \<and> j < length params
                                   \<longrightarrow> name (params ! j) \<noteq> name d)) docs))
   \<and> length (merge_docstring_params (params_map params) params docs)
       = length params + length (filter (\<lambda>d. name d \<notin> name ` set params) docs)
   \<and> map name (take (length params) (merge_docstring_params (params_map params) params docs))
       = map name params
   \<and> drop (length params) (merge_docstring_params (params_map params) params docs)
       = map set_defaults (filter (\<lambda>d. name d \<notin> name ` set params) docs)
   \<and> name (dict_update p q) = name q
   \<and> dataType (dict_update p q) = (case dataType q of None \<Rightarrow> dataType p | Some v \<Rightarrow> Some v)
   \<and> paramType (dict_update p q) = (case paramType q of None \<Rightarrow> paramType p | Some v \<Rightarrow> Some v)
   \<and> required (dict_update p q) = (case required q of None \<Rightarrow> required p | Some v \<Rightarrow> Some v)
   \<and> description (dict_update p q)
       = (case description q of None \<Rightarrow> description p | Some v \<Rightarrow> Some v)
   \<and> allowableValues (dict_update p q)
       = (case allowableValues q of None \<Rightarrow> allowableValues p | Some v \<Rightarrow> Some v)
   \<and> defaultValue (dict_update p q)
       = (case defaultValue q of None \<Rightarrow> defaultValue p | Some v \<Rightarrow> Some v)"
proof -
  have a: "name d \<in> name ` set params \<longrightarrow>
      (\<exists>i < length params.
            name (params ! i) = name d
            \<and> (\<forall>j. i < j \<and> j < length params \<longrightarrow> name (params ! j) \<noteq> name d)
            \<and> merge_docstring_params (params_map params) params (before @ [d])
                = (merge_docstring_params (params_map params) params before)
                    [i := dict_update
                            (merge_docstring_params (params_map params) params before ! i) d]
            \<and> merge_docstring_params (params_map params) params [d]
                = params[i := dict_update (params ! i) d]
            \<and> length (merge_docstring_params (params_map params) params [d]) = length params
            \<and> name (dict_update (params ! i) d) = name (params ! i)
            \<and> dataType (dict_update (params ! i) d)
                = (case dataType d of None \<Rightarrow> dataType (params ! i) | Some v \<Rightarrow> Some v)
            \<and> paramType (dict_update (params ! i) d)
                = (case paramType d of None \<Rightarrow> paramType (params ! i) | Some v \<Rightarrow> Some v)
            \<and> required (dict_update (params ! i) d)
                = (case required d of None \<Rightarrow> required (params ! i) | Some v \<Rightarrow> Some v)
            \<and> description (dict_update (params ! i) d)
                = (case description d of None \<Rightarrow> description (params ! i) | Some v \<Rightarrow> Some v)
            \<and> allowableValues (dict_update (params ! i) d)
                = (case allowableValues d of None \<Rightarrow> allowableValues (params ! i) | Some v \<Rightarrow> Some v)
            \<and> defaultValue (dict_update (params ! i) d)
                = (case defaultValue d of None \<Rightarrow> defaultValue (params ! i) | Some v \<Rightarrow> Some v))"
    using merge_update_at_last [of d params before] by blast
  have b: "\<forall>i < length params.
         merge_docstring_params (params_map params) params docs ! i
           = foldl dict_update (params ! i)
               (filter (\<lambda>d. name d = name (params ! i)
                            \<and> (\<forall>j. i < j \<and> j < length params
                                   \<longrightarrow> name (params ! j) \<noteq> name d)) docs)"
    using merge_elements by blast
  note c = merge_length [of params docs]
  note d = merge_whole_loop [of params docs]
  note f = dict_update_fields [of p q]
  show ?thesis
    apply (rule conjI [OF a])
    apply (rule conjI [OF b])
    apply (rule conjI [OF c])
    apply (rule conjI [OF d [THEN conjunct1]])
    apply (rule conjI [OF d [THEN conjunct2]])
    apply (intro conjI f)
    done
qed

theorem docstring_param_updates_in_place_witness:
  "name ((new_param ''x'')\<lparr>dataType := Some (PStr ''int''), description := Some (PStr ''desc'')\<rparr>)
     \<in> name ` set [path_param ''id'', form_param ''x'' text_field]
   \<and> merge_docstring_params
        (params_map [path_param ''id'', form_param ''x'' text_field])
        [path_param ''id'', form_param ''x'' text_field]
        [(new_param ''x'')\<lparr>dataType := Some (PStr ''int''), description := Some (PStr ''desc'')\<rparr>]
       = [path_param ''id'',
          \<lparr>name = ''x'', dataType = Some (PStr ''int''), paramType = Some (PStr ''form''),
            required = Some (PBool False), description = Some (PStr ''desc''),
            allowableValues = Some (PRange (PInt 30) PNone),
            defaultValue = Some (PStr ''none'')\<rparr>]
   \<and> merge_docstring_params
        (params_map [path_param ''id'', form_param ''x'' text_field])
        [path_param ''id'', form_param ''x'' text_field]
        [(new_param ''x'')\<lparr>dataType := Some (PStr ''int''), description := Some (PStr ''desc'')\<rparr>,
         (new_param ''x'')\<lparr>required := Some (PBool True), description := Some (PStr ''again'')\<rparr>]
       ! 1
       = \<lparr>name = ''x'', dataType = Some (PStr ''int''), paramType = Some (PStr ''form''),
           required = Some (PBool True), description = Some (PStr ''again''),
           allowableValues = Some (PRange (PInt 30) PNone),
           defaultValue = Some (PStr ''none'')\<rparr>
   \<and> get_parameters (APIViewMethodIntrospector ''/items/{id}'' item_view ''POST'')
       = [path_param ''id'',
          \<lparr>name = ''x'', dataType = Some (PStr ''int''), paramType = Some (PStr ''form''),
            required = Some (PBool False), description = Some (PStr ''desc''),
            allowableValues = Some (PRange (PInt 30) PNone),
            defaultValue = Some (PStr ''none'')\<rparr>]"
proof -
  let ?d = "(new_param ''x'')\<lparr>dataType := Some (PStr ''int''), description := Some (PStr ''desc'')\<rparr>"
  let ?e = "(new_param ''x'')\<lparr>required := Some (PBool True), description := Some (PStr ''again'')\<rparr>"
  let ?ps = "[path_param ''id'', form_param ''x'' text_field]"
  let ?mi = "APIViewMethodIntrospector ''/items/{id}'' item_view ''POST''"
  note main = docstring_param_updates_in_place [of ?d ?ps "[]" "[?d, ?e]"]
  have a: "name ?d \<in> name ` set ?ps"
    by simp
  from main [THEN conjunct1, THEN mp, OF a] obtain i where
    i: "i < length ?ps" "name (?ps ! i) = name ?d"
    and m: "merge_docstring_params (params_map ?ps) ?ps [?d] = ?ps[i := dict_update (?ps ! i) ?d]"
    by blast
  have "i \<noteq> 0"
  proof
    assume "i = 0"
    with i(2) show False by simp
  qed
  with i(1) have i1: "i = 1" by simp
  have b: "merge_docstring_params (params_map ?ps) ?ps [?d]
       = [path_param ''id'',
          \<lparr>name = ''x'', dataType = Some (PStr ''int''), paramType = Some (PStr ''form''),
            required = Some (PBool False), description = Some (PStr ''desc''),
            allowableValues = Some (PRange (PInt 30) PNone),
            defaultValue = Some (PStr ''none'')\<rparr>]"
    unfolding m i1
    by (simp add: dict_update_def override_def new_param_def form_param_def text_field_def
        or_default_def get_resolved_value_def Let_def)
  have one: "(1::nat) < length ?ps" by simp
  from main [THEN conjunct2, THEN conjunct1, rule_format, OF one]
  have "merge_docstring_params (params_map ?ps) ?ps [?d, ?e] ! 1
          = foldl dict_update (?ps ! 1)
              (filter (\<lambda>d. name d = name (?ps ! 1)
                           \<and> (\<forall>j. 1 < j \<and> j < length ?ps \<longrightarrow> name (?ps ! j) \<noteq> name d))
                 [?d, ?e])" .
  also have "\<dots> = foldl dict_update (?ps ! 1) [?d, ?e]"
    by simp
  also have "\<dots> = \<lparr>name = ''x'', dataType = Some (PStr ''int''), paramType = Some (PStr ''form''),
           required = Some (PBool True), description = Some (PStr ''again''),
           allowableValues = Some (PRange (PInt 30) PNone),
           defaultValue = Some (PStr ''none'')\<rparr>"
    by (simp add: dict_update_def override_def new_param_def form_param_def text_field_def
        or_default_def get_resolved_value_def Let_def)
  finally have w: "merge_docstring_params (params_map ?ps) ?ps [?d, ?e] ! 1
       = \<lparr>name = ''x'', dataType = Some (PStr ''int''), paramType = Some (PStr ''form''),
           required = Some (PBool True), description = Some (PStr ''again''),
           allowableValues = Some (PRange (PInt 30) PNone),
           defaultValue = Some (PStr ''none'')\<rparr>" .
  have low: "str_lower ''POST'' = ''post''" by code_simp
  have base: "params_before_docstring ?mi = ?ps"
    by (simp add: params_before_docstring_def build_path_parameters_def
        build_body_parameters_def build_form_parameters_def get_http_method_def
        APIViewMethodIntrospector_def item_view_def id_field_def or_default_def
        text_field_def [THEN arg_cong, of read_only])
  have docs: "build_query_params_from_docstring ?mi = [?d]"
    by (simp add: build_query_params_from_docstring_def docstring_with_description_def
        retrieve_docstring_def low APIViewMethodIntrospector_def item_view_def str_split_def
        param_from_line_def param_type_tag_def required_tag_def data_type_tag_def
        new_param_def sublist_Cons_right data_type_match_def data_type_here_def
        before_last_def str_strip_def str_rstrip_def str_lstrip_def is_space_def)
  have c: "get_parameters ?mi = merge_docstring_params (params_map ?ps) ?ps [?d]"
    by (simp only: get_parameters_def Let_def base docs)
  from a b w c show ?thesis by simp
qed

lemma path_params_type:
  "p \<in> set (build_path_parameters mi) \<Longrightarrow> paramType p = Some (PStr ''path'')"
  by (auto simp: build_path_parameters_def path_param_def)

lemma form_params_type:
  "p \<in> set (build_form_parameters mi) \<Longrightarrow> paramType p = Some (PStr ''form'')"
  by (auto simp: build_form_parameters_def form_param_def Let_def split: option.splits)

lemma body_param_type:
  "build_body_parameters mi = Some b \<Longrightarrow> paramType b = Some (PStr ''body'')"
  by (auto simp: build_body_parameters_def split: option.splits)

lemma body_not_among_path_and_form:
  assumes "build_body_parameters mi = Some b"
  shows "b \<notin> set (build_path_parameters mi @ build_form_parameters mi)"
proof
  assume "b \<in> set (build_path_parameters mi @ build_form_parameters mi)"
  then have "paramType b = Some (PStr ''path'') \<or> paramType b = Some (PStr ''form'')"
    using path_params_type form_params_type by auto
  with body_param_type [OF assms] show False by simp
qed

text \<open>
  C6. When the parameters of the docstring are reached, the list holds the path
  parameters alone if the HTTP method is \<open>GET\<close> or \<open>DELETE\<close>. Otherwise the form
  parameters follow them; the body parameter, named after the serializer, follows only
  when no form parameter was derived and a serializer exists, and when a form parameter
  was derived the body parameter is not in the list. A path parameter has the type
  \<open>path\<close>, so it is neither. \<open>get_parameters\<close> returns this list merged with the
  parameters of the docstring.
\<close>

theorem form_and_body_fallback:
  "(get_http_method mi \<in> {''GET'', ''DELETE''}
      \<longrightarrow> params_before_docstring mi = build_path_parameters mi)
   \<and> (get_http_method mi \<notin> {''GET'', ''DELETE''} \<and> build_form_parameters mi \<noteq> []
      \<longrightarrow> params_before_docstring mi = build_path_parameters mi @ build_form_parameters mi
          \<and> (\<forall>b. build_body_parameters mi = Some b \<longrightarrow> b \<notin> set (params_before_docstring mi)))
   \<and> (get_http_method mi \<notin> {''GET'', ''DELETE''} \<and> build_form_parameters mi = []
      \<longrightarrow> params_before_docstring mi
          = build_path_parameters mi
            @ (case build_body_parameters mi of None \<Rightarrow> [] | Some b \<Rightarrow> [b]))
   \<and> (\<forall>p \<in> set (build_path_parameters mi). paramType p = Some (PStr ''path''))
   \<and> get_parameters mi
       = merge_docstring_params (params_map (params_before_docstring mi))
           (params_before_docstring mi) (build_query_params_from_docstring mi)"
proof (intro conjI impI allI ballI)
  assume "get_http_method mi \<in> {''GET'', ''DELETE''}"
  then show "params_before_docstring mi = build_path_parameters mi"
    by (simp add: params_before_docstring_def Let_def)
next
  assume h: "get_http_method mi \<notin> {''GET'', ''DELETE''} \<and> build_form_parameters mi \<noteq> []"
  then show a: "params_before_docstring mi = build_path_parameters mi @ build_form_parameters mi"
    by (simp add: params_before_docstring_def Let_def)
  fix b assume "build_body_parameters mi = Some b"
  then show "b \<notin> set (params_before_docstring mi)"
    unfolding a by (rule body_not_among_path_and_form)
next
  assume "get_http_method mi \<notin> {''GET'', ''DELETE''} \<and> build_form_parameters mi = []"
  then show "params_before_docstring mi
          = build_path_parameters mi
            @ (case build_body_parameters mi of None \<Rightarrow> [] | Some b \<Rightarrow> [b])"
    by (simp add: params_before_docstring_def Let_def)
next
  fix p assume "p \<in> set (build_path_parameters mi)"
  then show "paramType p = Some (PStr ''path'')" by (rule path_params_type)
next
  show "get_parameters mi
       = merge_docstring_params (params_map (params_before_docstring mi))
           (params_before_docstring mi) (build_query_params_from_docstring mi)"
    by (simp only: get_parameters_def Let_def)
qed

theorem form_and_body_fallback_witness:
  "get_http_method (APIViewMethodIntrospector ''/items/{id}'' item_view ''GET'') = ''GET''
   \<and> params_before_docstring (APIViewMethodIntrospector ''/items/{id}'' item_view ''GET'')
       = [path_param ''id'']
   \<and> get_http_method (ViewSetMethodIntrospector ''/items/{id}'' item_view ''update'' ''put'') = ''PUT''
   \<and> build_form_parameters (ViewSetMethodIntrospector ''/items/{id}'' item_view ''update'' ''put'')
       = [form_param ''x'' text_field]
   \<and> params_before_docstring (ViewSetMethodIntrospector ''/items/{id}'' item_view ''update'' ''put'')
       = [path_param ''id'', form_param ''x'' text_field]
   \<and> build_body_parameters (ViewSetMethodIntrospector ''/items/{id}'' item_view ''update'' ''put'')
       = Some ((new_param ''ItemSerializer'')\<lparr>dataType := Some (PStr ''ItemSerializer''),
                                               paramType := Some (PStr ''body'')\<rparr>)
   \<and> (new_param ''ItemSerializer'')\<lparr>dataType := Some (PStr ''ItemSerializer''),
                                     paramType := Some (PStr ''body'')\<rparr>
       \<notin> set (params_before_docstring
                 (ViewSetMethodIntrospector ''/items/{id}'' item_view ''update'' ''put''))
   \<and> build_form_parameters (APIViewMethodIntrospector ''/report/{id}'' readonly_view ''POST'') = []
   \<and> params_before_docstring (APIViewMethodIntrospector ''/report/{id}'' readonly_view ''POST'')
       = [path_param ''id'',
          (new_param ''ReportSerializer'')\<lparr>dataType := Some (PStr ''ReportSerializer''),
                                            paramType := Some (PStr ''body'')\<rparr>]
   \<and> paramType (path_param ''id'') = Some (PStr ''path'')"
proof -
  let ?g = "APIViewMethodIntrospector ''/items/{id}'' item_view ''GET''"
  let ?u = "ViewSetMethodIntrospector ''/items/{id}'' item_view ''update'' ''put''"
  let ?r = "APIViewMethodIntrospector ''/report/{id}'' readonly_view ''POST''"
  let ?ib = "(new_param ''ItemSerializer'')\<lparr>dataType := Some (PStr ''ItemSerializer''),
                                               paramType := Some (PStr ''body'')\<rparr>"
  have up: "str_upper ''put'' = ''PUT''" by code_simp
  have g1: "get_http_method ?g = ''GET''"
    by (simp add: get_http_method_def APIViewMethodIntrospector_def)
  have u1: "get_http_method ?u = ''PUT''"
    by (simp add: get_http_method_def ViewSetMethodIntrospector_def up)
  have r1: "get_http_method ?r = ''POST''"
    by (simp add: get_http_method_def APIViewMethodIntrospector_def)
  have pg: "build_path_parameters ?g = [path_param ''id'']"
    and pu: "build_path_parameters ?u = [path_param ''id'']"
    and pr: "build_path_parameters ?r = [path_param ''id'']"
    by (simp_all add: build_path_parameters_def APIViewMethodIntrospector_def
        ViewSetMethodIntrospector_def)
  have fu: "build_form_parameters ?u = [form_param ''x'' text_field]"
    by (simp add: build_form_parameters_def ViewSetMethodIntrospector_def item_view_def
        id_field_def or_default_def text_field_def [THEN arg_cong, of read_only])
  have fr: "build_form_parameters ?r = []"
    by (simp add: build_form_parameters_def APIViewMethodIntrospector_def readonly_view_def
        id_field_def or_default_def)
  have bu: "build_body_parameters ?u = Some ?ib"
    by (simp add: build_body_parameters_def ViewSetMethodIntrospector_def item_view_def)
  have br: "build_body_parameters ?r
      = Some ((new_param ''ReportSerializer'')\<lparr>dataType := Some (PStr ''ReportSerializer''),
                                               paramType := Some (PStr ''body'')\<rparr>)"
    by (simp add: build_body_parameters_def APIViewMethodIntrospector_def readonly_view_def)
  have ng: "get_http_method ?g \<in> {''GET'', ''DELETE''}" by (simp add: g1)
  from form_and_body_fallback [of ?g] ng
  have "params_before_docstring ?g = build_path_parameters ?g" by blast
  then have a: "params_before_docstring ?g = [path_param ''id'']"
    by (simp only: pg)
  have nu: "get_http_method ?u \<notin> {''GET'', ''DELETE''} \<and> build_form_parameters ?u \<noteq> []"
    by (simp add: u1 fu)
  from form_and_body_fallback [of ?u] nu
  have "params_before_docstring ?u = build_path_parameters ?u @ build_form_parameters ?u
        \<and> (\<forall>b. build_body_parameters ?u = Some b \<longrightarrow> b \<notin> set (params_before_docstring ?u))"
    by blast
  then have b0: "params_before_docstring ?u = build_path_parameters ?u @ build_form_parameters ?u"
    and c0: "\<forall>b. build_body_parameters ?u = Some b \<longrightarrow> b \<notin> set (params_before_docstring ?u)"
    by blast+
  from b0 have b: "params_before_docstring ?u = [path_param ''id'', form_param ''x'' text_field]"
    by (simp only: pu fu append.simps)
  from c0 bu have c: "?ib \<notin> set (params_before_docstring ?u)" by blast
  have nr: "get_http_method ?r \<notin> {''GET'', ''DELETE''} \<and> build_form_parameters ?r = []"
    by (simp add: r1 fr)
  from form_and_body_fallback [of ?r] nr
  have "params_before_docstring ?r
          = build_path_parameters ?r
            @ (case build_body_parameters ?r of None \<Rightarrow> [] | Some b \<Rightarrow> [b])"
    by blast
  then have d: "params_before_docstring ?r
       = [path_param ''id'',
          (new_param ''ReportSerializer'')\<lparr>dataType := Some (PStr ''ReportSerializer''),
                                            paramType := Some (PStr ''body'')\<rparr>]"
    by (simp add: pr br)
  from form_and_body_fallback [of ?g]
  have "\<forall>p \<in> set (build_path_parameters ?g). paramType p = Some (PStr ''path'')" by blast
  then have e: "paramType (path_param ''id'') = Some (PStr ''path'')"
    unfolding pg by simp
  from g1 a u1 fu b bu c fr d e show ?thesis by blast
qed

section \<open>Properties of the flattening\<close>

lemma both_simps [simp]:
  "both (Inr []) r = r" "both r (Inr []) = r"
  "both (both a b) c = both a (both b c)"
  by (auto simp: both_def split: sum.splits)

lemma flatten_Cons:
  "flatten_patterns_tree sr (p # ps) pfx ex
     = both (flatten_pattern sr p pfx ex) (flatten_patterns_tree sr ps pfx ex)"
  by (simp add: both_def)

lemma flatten_append:
  "flatten_patterns_tree sr (xs @ ys) pfx ex
     = both (flatten_patterns_tree sr xs pfx ex) (flatten_patterns_tree sr ys pfx ex)"
  by (induction xs) (simp_all only: append.simps flatten_Cons both_simps flatten_patterns_tree.simps)

lemma prune_Cons: "prune ex (p # ps) = prune ex [p] @ prune ex ps"
  by (cases p) simp_all

lemma prune_append: "prune ex (xs @ ys) = prune ex xs @ prune ex ys"
proof (induction xs)
  case Nil
  then show ?case by simp
next
  case (Cons p xs)
  have "prune ex ((p # xs) @ ys) = prune ex [p] @ prune ex (xs @ ys)"
    using prune_Cons [of ex p "xs @ ys"] by simp
  also have "\<dots> = prune ex [p] @ prune ex xs @ prune ex ys" using Cons.IH by simp
  also have "\<dots> = prune ex (p # xs) @ prune ex ys"
    using prune_Cons [of ex p xs] by simp
  finally show ?case .
qed

lemma leaves_append: "leaves (xs @ ys) = leaves xs @ leaves ys"
  by (induction xs rule: leaves.induct) simp_all

lemma flatten_prune_both:
  "flatten_patterns_tree sr (ps :: 'a url_pattern list) pfx ex
     = flatten_patterns_tree sr (prune ex ps) pfx ex"
  "flatten_pattern sr (p :: 'a url_pattern) pfx ex
     = flatten_patterns_tree sr (prune ex [p]) pfx ex"
proof (induction sr ps pfx ex and sr p pfx ex rule: flatten_patterns_tree_flatten_pattern.induct)
  case (1 sr pfx ex)
  show ?case by simp
next
  case (2 sr p ps pfx ex)
  have "flatten_patterns_tree sr (p # ps) pfx ex
          = both (flatten_pattern sr p pfx ex) (flatten_patterns_tree sr ps pfx ex)"
    by (rule flatten_Cons)
  also have "\<dots> = both (flatten_patterns_tree sr (prune ex [p]) pfx ex)
                        (flatten_patterns_tree sr ps pfx ex)"
    using "2.IH"(1) by simp
  also have "\<dots> = both (flatten_patterns_tree sr (prune ex [p]) pfx ex)
                        (flatten_patterns_tree sr (prune ex ps) pfx ex)"
  proof (cases "flatten_pattern sr p pfx ex")
    case (Inl e)
    with "2.IH"(1) have "flatten_patterns_tree sr (prune ex [p]) pfx ex = Inl e" by simp
    then show ?thesis by (simp add: both_def)
  next
    case (Inr xs)
    from "2.IH"(2) [OF Inr] show ?thesis by simp
  qed
  also have "\<dots> = flatten_patterns_tree sr (prune ex [p] @ prune ex ps) pfx ex"
    by (simp only: flatten_append)
  also have "\<dots> = flatten_patterns_tree sr (prune ex (p # ps)) pfx ex"
    using prune_Cons [of ex p ps] by simp
  finally show ?case .
next
  case (3 sr rx cbo pfx ex)
  show ?case by (simp split: sum.splits option.splits)
next
  case (4 sr ns rx kids pfx ex)
  show ?case
  proof (cases "namespace_excluded ns ex")
    case True
    then show ?thesis by simp
  next
    case False
    from "4.IH" [OF False] False show ?thesis by (simp split: sum.splits)
  qed
next
  case (5 sr pfx ex)
  show ?case by simp
qed

lemma flatten_pruned_no_exclusion:
  "flatten_patterns_tree sr (prune ex ps) pfx ex = flatten_patterns_tree sr (prune ex ps) pfx []"
proof (induction ex ps arbitrary: pfx rule: prune.induct)
  case (1 ex)
  show ?case by simp
next
  case (2 ex ns rx kids ps)
  show ?case
  proof (cases "namespace_excluded ns ex")
    case True
    with "2.IH"(1) show ?thesis by simp
  next
    case False
    have n: "\<not> namespace_excluded ns []" by (simp add: namespace_excluded_def split: option.splits)
    from "2.IH"(2) [OF False, of "pfx @ rx"] "2.IH"(3) [OF False, of pfx] False n
    show ?thesis by (simp split: sum.splits)
  qed
next
  case (3 ex rx cbo ps)
  from "3.IH" [of pfx] show ?case by (simp split: sum.splits)
next
  case (4 ex ps)
  from "4.IH" [of pfx] show ?case by (simp split: sum.splits)
qed

lemma assemble_pattern:
  "assemble_endpoint_data sr p pfx = Inr (Some ep) \<Longrightarrow> api_pattern ep = p"
  by (auto simp: assemble_endpoint_data_def Let_def
      split: url_pattern.splits sum.splits option.splits if_splits)

lemma flatten_leaves_both:
  "flatten_patterns_tree sr (ps :: 'a url_pattern list) pfx ex = Inr eps
     \<Longrightarrow> api_pattern ` set eps \<subseteq> set (leaves (prune ex ps))"
  "flatten_pattern sr (p :: 'a url_pattern) pfx ex = Inr eps
     \<Longrightarrow> api_pattern ` set eps \<subseteq> set (leaves (prune ex [p]))"
proof (induction sr ps pfx ex and sr p pfx ex arbitrary: eps and eps
       rule: flatten_patterns_tree_flatten_pattern.induct)
  case (1 sr pfx ex)
  then show ?case by simp
next
  case (2 sr p ps pfx ex)
  from "2.prems" obtain xs ys where
    xs: "flatten_pattern sr p pfx ex = Inr xs" and
    ys: "flatten_patterns_tree sr ps pfx ex = Inr ys" and eps: "eps = xs @ ys"
    by (auto split: sum.splits)
  from "2.IH"(1) [OF xs] "2.IH"(2) [OF xs ys] eps
  have "api_pattern ` set eps \<subseteq> set (leaves (prune ex [p])) \<union> set (leaves (prune ex ps))"
    by auto
  then show ?case using prune_Cons [of ex p ps] by (simp add: leaves_append)
next
  case (3 sr rx cbo pfx ex)
  then show ?case by (auto split: sum.splits option.splits dest: assemble_pattern)
next
  case (4 sr ns rx kids pfx ex)
  show ?case
  proof (cases "namespace_excluded ns ex")
    case True
    with "4.prems" show ?thesis by simp
  next
    case False
    with "4.prems" have "flatten_patterns_tree sr kids (pfx @ rx) ex = Inr eps" by simp
    from "4.IH" [OF False this] False show ?thesis by simp
  qed
next
  case (5 sr pfx ex)
  then show ?case by simp
qed

text \<open>
  C7. For every URL tree, prefix and list of excluded namespaces, flattening gives what
  flattening without any exclusion gives on the tree from which every resolver of an
  excluded namespace has been removed with its whole subtree, at every depth, the
  exception included when there is one. Every endpoint returned comes from a
  \<open>RegexURLPattern\<close> of that pruned tree. A resolver of an excluded namespace among
  the patterns contributes nothing, whatever its subtree holds.
\<close>

theorem excluded_namespaces_pruned:
  "flatten_patterns_tree sr patterns pfx ex = flatten_patterns_tree sr (prune ex patterns) pfx []
   \<and> (\<forall>eps. flatten_patterns_tree sr patterns pfx ex = Inr eps
        \<longrightarrow> (\<forall>ep \<in> set eps. api_pattern ep \<in> set (leaves (prune ex patterns))))
   \<and> (namespace_excluded ns ex
        \<longrightarrow> flatten_patterns_tree sr (before @ RegexURLResolver ns rx kids # after) pfx ex
            = flatten_patterns_tree sr (before @ after) pfx ex)"
proof (intro conjI allI impI ballI)
  show "flatten_patterns_tree sr patterns pfx ex
          = flatten_patterns_tree sr (prune ex patterns) pfx []"
    using flatten_prune_both(1) [of sr patterns pfx ex]
      flatten_pruned_no_exclusion [of sr ex patterns pfx]
    by simp
next
  fix eps ep
  assume "flatten_patterns_tree sr patterns pfx ex = Inr eps" and "ep \<in> set eps"
  with flatten_leaves_both(1) [of sr patterns pfx ex eps]
  show "api_pattern ep \<in> set (leaves (prune ex patterns))" by blast
next
  assume x: "namespace_excluded ns ex"
  have "prune ex (before @ RegexURLResolver ns rx kids # after)
          = prune ex before @ prune ex (RegexURLResolver ns rx kids # after)"
    by (rule prune_append)
  also have "\<dots> = prune ex before @ prune ex after" using x by simp
  also have "\<dots> = prune ex (before @ after)" by (simp only: prune_append)
  finally have "prune ex (before @ RegexURLResolver ns rx kids # after) = prune ex (before @ after)" .
  then show "flatten_patterns_tree sr (before @ RegexURLResolver ns rx kids # after) pfx ex
            = flatten_patterns_tree sr (before @ after) pfx ex"
    using flatten_prune_both(1) [of sr "before @ RegexURLResolver ns rx kids # after" pfx ex]
      flatten_prune_both(1) [of sr "before @ after" pfx ex]
    by simp
qed

theorem excluded_namespaces_pruned_witness:
  "namespace_excluded (Some ''admin'') [''admin'']
   \<and> flatten_patterns_tree plain_simplify example_urlpatterns [] [''admin'']
       = Inr [\<lparr>api_path = ''/users/'',
                api_pattern = RegexURLPattern ''^users/$'' (Some (view_callback example_view)),
                api_callback = example_view\<rparr>,
              \<lparr>api_path = ''/api/items/'',
                api_pattern = RegexURLPattern ''^items/$'' (Some (view_callback item_view)),
                api_callback = item_view\<rparr>]
   \<and> leaves (prune [''admin''] example_urlpatterns)
       = [RegexURLPattern ''^users/$'' (Some (view_callback example_view)),
          RegexURLPattern ''^items/$'' (Some (view_callback item_view))]"
proof -
  have a: "namespace_excluded (Some ''admin'') [''admin'']"
    by (simp add: namespace_excluded_def)
  have p: "prune [''admin''] example_urlpatterns
             = [RegexURLPattern ''^users/$'' (Some (view_callback example_view)),
                RegexURLResolver (Some ''api'') ''^api/''
                  [RegexURLPattern ''^items/$'' (Some (view_callback item_view))]]"
    by (simp add: example_urlpatterns_def namespace_excluded_def)
  have v: "is_APIView example_view" "\<not> is_APIDocView example_view"
    "module example_view = ''app.views''"
    "is_APIView item_view" "\<not> is_APIDocView item_view" "module item_view = ''app.views''"
    by (simp_all add: example_view_def item_view_def)
  from excluded_namespaces_pruned [of plain_simplify example_urlpatterns "[]" "[''admin'']"]
  have "flatten_patterns_tree plain_simplify example_urlpatterns [] [''admin'']
          = flatten_patterns_tree plain_simplify (prune [''admin''] example_urlpatterns) [] []"
    by (rule conjunct1)
  also have "\<dots> = Inr [\<lparr>api_path = ''/users/'',
                api_pattern = RegexURLPattern ''^users/$'' (Some (view_callback example_view)),
                api_callback = example_view\<rparr>,
              \<lparr>api_path = ''/api/items/'',
                api_pattern = RegexURLPattern ''^items/$'' (Some (view_callback item_view)),
                api_callback = item_view\<rparr>]"
    unfolding p
    by (simp add: assemble_endpoint_data_def get_pattern_api_callback_def view_callback_def
        exclude_router_api_root_def exclude_format_endpoints_def replace_char_def
        plain_simplify_def namespace_excluded_def sublist_Cons_right v)
  finally have b: "flatten_patterns_tree plain_simplify example_urlpatterns [] [''admin'']
       = Inr [\<lparr>api_path = ''/users/'',
                api_pattern = RegexURLPattern ''^users/$'' (Some (view_callback example_view)),
                api_callback = example_view\<rparr>,
              \<lparr>api_path = ''/api/items/'',
                api_pattern = RegexURLPattern ''^items/$'' (Some (view_callback item_view)),
                api_callback = item_view\<rparr>]" .
  have c: "leaves (prune [''admin''] example_urlpatterns)
       = [RegexURLPattern ''^users/$'' (Some (view_callback example_view)),
          RegexURLPattern ''^items/$'' (Some (view_callback item_view))]"
    unfolding p by simp
  from a b c show ?thesis by blast
qed

section \<open>Properties of the view set introspection\<close>

lemma index_of_zip:
  "length fv = length cells \<Longrightarrow> map_of (zip fv cells) k = Some c
     \<Longrightarrow> k \<in> set fv \<and> index_of k fv < length cells \<and> cells ! index_of k fv = c"
proof (induction fv arbitrary: cells)
  case Nil
  then show ?case by simp
next
  case (Cons x fv)
  from Cons.prems(1) obtain y ys where cells: "cells = y # ys" by (cases cells) auto
  show ?case
  proof (cases "k = x")
    case True
    with Cons.prems cells show ?thesis by simp
  next
    case False
    with Cons.prems cells have "length fv = length ys" "map_of (zip fv ys) k = Some c"
      by simp_all
    from Cons.IH [OF this] False cells show ?thesis by simp
  qed
qed

text \<open>
  C8. When the callback does not have the attributes \<open>func_code\<close> and
  \<open>func_closure\<close> and a tuple \<open>co_freevars\<close> that names \<open>actions\<close>,
  \<open>_resolve_methods\<close> raises RuntimeError. When it has them and the closure binds
  \<open>actions\<close> to a value, that value is returned. An exception of
  \<open>_resolve_methods\<close> is the result of iterating the introspector: it is not caught;
  a mapping returned gives one method introspector for each of its items.
\<close>

theorem resolve_methods_closure:
  "(\<not> (\<exists>code closure fv. func_code cb = Some code \<and> func_closure cb = Some closure
          \<and> co_freevars code = Some fv \<and> ''actions'' \<in> set fv)
      \<longrightarrow> resolve_methods cb = Inl RuntimeError)
   \<and> (func_code cb = Some code \<and> co_freevars code = Some fv
       \<and> func_closure cb = Some (Some cells) \<and> length fv = length cells
       \<and> map_of (zip fv cells) ''actions'' = Some (Some v)
      \<longrightarrow> resolve_methods cb = Inr v)
   \<and> (resolve_methods cb' = Inl e \<longrightarrow> viewset_iter vpath vcb cb' = Inl e)
   \<and> (resolve_methods cb' = Inr methods
      \<longrightarrow> viewset_iter vpath vcb cb'
          = Inr (map (\<lambda>(h, m). ViewSetMethodIntrospector vpath vcb m h) methods))"
proof (intro conjI impI)
  assume n: "\<not> (\<exists>code closure fv. func_code cb = Some code \<and> func_closure cb = Some closure
          \<and> co_freevars code = Some fv \<and> ''actions'' \<in> set fv)"
  show "resolve_methods cb = Inl RuntimeError"
  proof (cases "func_code cb = None \<or> func_closure cb = None
         \<or> co_freevars (the (func_code cb)) = None
         \<or> ''actions'' \<notin> set (the (co_freevars (the (func_code cb))))")
    case True
    then show ?thesis by (simp add: resolve_methods_def)
  next
    case False
    then obtain code closure fv where "func_code cb = Some code" "func_closure cb = Some closure"
      "co_freevars code = Some fv" "''actions'' \<in> set fv"
      by auto
    with n show ?thesis by blast
  qed
next
  assume h: "func_code cb = Some code \<and> co_freevars code = Some fv
       \<and> func_closure cb = Some (Some cells) \<and> length fv = length cells
       \<and> map_of (zip fv cells) ''actions'' = Some (Some v)"
  then have "''actions'' \<in> set fv \<and> index_of ''actions'' fv < length cells
             \<and> cells ! index_of ''actions'' fv = Some v"
    using index_of_zip [of fv cells "''actions''" "Some v"] by blast
  with h show "resolve_methods cb = Inr v" by (simp add: resolve_methods_def)
next
  assume "resolve_methods cb' = Inl e"
  then show "viewset_iter vpath vcb cb' = Inl e" by (simp add: viewset_iter_def)
next
  assume "resolve_methods cb' = Inr methods"
  then show "viewset_iter vpath vcb cb'
          = Inr (map (\<lambda>(h, m). ViewSetMethodIntrospector vpath vcb m h) methods)"
    by (simp add: viewset_iter_def)
qed

theorem resolve_methods_closure_witness:
  "resolve_methods plain_function = Inl RuntimeError
   \<and> viewset_iter ''/items/'' item_view plain_function = Inl RuntimeError
   \<and> resolve_methods viewset_function = Inr (Inl [(''get'', ''list''), (''post'', ''create'')])
   \<and> viewset_iter ''/items/'' item_view actions_function
       = Inr [\<lparr>method_name = ''list'', http_method = Some ''GET'', path = ''/items/'',
                callback = item_view\<rparr>,
              \<lparr>method_name = ''create'', http_method = Some ''POST'', path = ''/items/'',
                callback = item_view\<rparr>]"
proof -
  have n: "\<not> (\<exists>code closure fv. func_code plain_function = Some code
            \<and> func_closure plain_function = Some closure
            \<and> co_freevars code = Some fv \<and> ''actions'' \<in> set fv)"
    by (auto simp: plain_function_def)
  have a: "resolve_methods plain_function = Inl RuntimeError"
    using n by (rule resolve_methods_closure [THEN conjunct1, THEN mp])
  have b: "viewset_iter ''/items/'' item_view plain_function = Inl RuntimeError"
    using a by (rule resolve_methods_closure [THEN conjunct2, THEN conjunct2, THEN conjunct1,
          THEN mp])
  have h: "func_code viewset_function = Some \<lparr>co_freevars = Some [''cls'', ''actions'']\<rparr>
           \<and> co_freevars \<lparr>co_freevars = Some [''cls'', ''actions'']\<rparr> = Some [''cls'', ''actions'']
           \<and> func_closure viewset_function
               = Some (Some [Some (Inr ''ItemViewSet''),
                             Some (Inl [(''get'', ''list''), (''post'', ''create'')])])
           \<and> length [''cls'', ''actions'']
               = length [Some (Inr ''ItemViewSet'' :: (string \<times> string) list + string),
                         Some (Inl [(''get'', ''list''), (''post'', ''create'')])]
           \<and> map_of (zip [''cls'', ''actions'']
                          [Some (Inr ''ItemViewSet''),
                           Some (Inl [(''get'', ''list''), (''post'', ''create'')])]) ''actions''
               = Some (Some (Inl [(''get'', ''list''), (''post'', ''create'')]
                             :: (string \<times> string) list + string))"
    by (simp add: viewset_function_def)
  have c: "resolve_methods viewset_function = Inr (Inl [(''get'', ''list''), (''post'', ''create'')])"
    using h by (rule resolve_methods_closure [THEN conjunct2, THEN conjunct1, THEN mp])
  have r: "resolve_methods actions_function = Inr [(''get'', ''list''), (''post'', ''create'')]"
    by (simp add: resolve_methods_def actions_function_def)
  have up: "str_upper ''get'' = ''GET''" "str_upper ''post'' = ''POST''" by code_simp+
  have "viewset_iter ''/items/'' item_view actions_function
          = Inr (map (\<lambda>(h, m). ViewSetMethodIntrospector ''/items/'' item_view m h)
                     [(''get'', ''list''), (''post'', ''create'')])"
    using r by (rule resolve_methods_closure [THEN conjunct2, THEN conjunct2, THEN conjunct2,
          THEN mp])
  then have d: "viewset_iter ''/items/'' item_view actions_function
       = Inr [\<lparr>method_name = ''list'', http_method = Some ''GET'', path = ''/items/'',
                callback = item_view\<rparr>,
              \<lparr>method_name = ''create'', http_method = Some ''POST'', path = ''/items/'',
                callback = item_view\<rparr>]"
    by (simp add: ViewSetMethodIntrospector_def up)
  from a b c d show ?thesis by blast
qed

section \<open>Properties of the model resolution\<close>

lemma related_chain:
  assumes a: "get_releated_models_classes env a = Some [b, c]"
    and b: "get_releated_models_classes env b = Some [d]"
    and c: "get_releated_models_classes env c = None \<or> get_releated_models_classes env c = Some []"
    and d: "get_releated_models_classes env d = None \<or> get_releated_models_classes env d = Some []"
  shows "get_releated_classes_models_list (Suc (Suc (Suc n))) env a = Some [b, c, d]"
proof -
  have lb: "get_releated_classes_models_list (Suc (Suc n)) env b = Some [d]"
    using d
  proof
    assume "get_releated_models_classes env d = None"
    with b show ?thesis by simp
  next
    assume "get_releated_models_classes env d = Some []"
    with b show ?thesis by simp
  qed
  from c show ?thesis
  proof
    assume n: "get_releated_models_classes env c = None"
    show ?thesis
      by (subst get_releated_classes_models_list.simps)
         (simp add: a b n lb del: get_releated_classes_models_list.simps)
  next
    assume e: "get_releated_models_classes env c = Some []"
    then have lc: "get_releated_classes_models_list (Suc (Suc n)) env c = Some []" by simp
    show ?thesis
      by (subst get_releated_classes_models_list.simps)
         (simp add: a b e lb lc del: get_releated_classes_models_list.simps)
  qed
qed

text \<open>
  C9 (what the code does). Let the model \<open>a\<close> of a view relate to \<open>b\<close> and \<open>c\<close>,
  \<open>b\<close> to \<open>d\<close>, and \<open>c\<close> and \<open>d\<close> to nothing. With a depth of three calls or more
  the introspector returns the classes \<open>a\<close>, \<open>b\<close>, \<open>c\<close>, \<open>d\<close>, each once. The
  collector then raises AttributeError at \<open>intro.get_yaml_parser()\<close>: it returns no
  mapping from the class names to the parsed docstrings.
\<close>

theorem related_models_listed_then_attribute_error:
  assumes "get_releated_models_classes env a = Some [b, c]"
    and "get_releated_models_classes env b = Some [d]"
    and "get_releated_models_classes env c = None \<or> get_releated_models_classes env c = Some []"
    and "get_releated_models_classes env d = None \<or> get_releated_models_classes env d = Some []"
    and "get_model_class (api_callback api) = Some a"
    and "3 \<le> fuel"
  shows "introspector_get_models fuel env (api_callback api) = Some [a, b, c, d]
         \<and> get_models fuel env (api # apis) = Some (Inl AttributeError)"
proof -
  from assms(6) obtain n where fuel: "fuel = Suc (Suc (Suc n))"
    by (metis Suc_le_D numeral_3_eq_3 Suc_le_mono)
  have r: "get_releated_classes_models_list fuel env a = Some [b, c, d]"
    unfolding fuel using assms(1-4) by (rule related_chain)
  have i: "introspector_get_models fuel env (api_callback api) = Some [a, b, c, d]"
    by (simp add: introspector_get_models_def assms(5) r)
  have g: "get_models fuel env (api # apis) = Some (Inl AttributeError)"
    by (simp add: get_models_def i)
  from i g show ?thesis by blast
qed

theorem related_models_listed_then_attribute_error_witness:
  "introspector_get_models 3 example_models (api_callback model_api) = Some [0, 1, 2, 3]
   \<and> get_models 3 example_models [model_api] = Some (Inl AttributeError)"
proof -
  have h1: "get_releated_models_classes example_models 0 = Some [1, 2]"
    and h2: "get_releated_models_classes example_models 1 = Some [3]"
    and h3: "get_releated_models_classes example_models 2 = None
             \<or> get_releated_models_classes example_models 2 = Some []"
    and h4: "get_releated_models_classes example_models 3 = None
             \<or> get_releated_models_classes example_models 3 = Some []"
    and h5: "get_model_class (api_callback model_api) = Some 0"
    and h6: "(3::nat) \<le> 3"
    by (simp_all add: example_models_def model_api_def model_view_def)
  from related_models_listed_then_attribute_error [OF h1 h2 h3 h4 h5 h6, of "[]"]
  show ?thesis .
qed

end
